theory Spec2Isabelle
  imports Complex_Main
begin

section \<open>Data model of the mosaic button\<close>

text \<open>
  The component \<^verbatim>\<open>MosaicButton\<close> keeps a list of fading squares in a ref and redraws
  it once per animation frame. JavaScript numbers are modelled as reals: the arithmetic
  of the source is taken exactly, without the rounding of binary64 (a later section adds
  the rounding for the countdown of one square). Every call of \<^verbatim>\<open>Math.random()\<close> is
  an input of the model (a draw), a real in \<open>[0, 1)\<close>. The scheduling of the frames
  (\<^verbatim>\<open>requestAnimationFrame\<close>, cancelled at unmount) is the order of the events of a run.
\<close>

text \<open>\<^verbatim>\<open>interface Square { x; y; opacity; life; decay }\<close>\<close>

record Square =
  sq_x :: real
  sq_y :: real
  opacity :: real
  life :: real
  decay :: real

text \<open>
  What the container element gives when it is read: \<^verbatim>\<open>getBoundingClientRect()\<close>
  (\<open>left\<close>, \<open>top\<close>) and its layout box (\<open>offsetWidth\<close>, \<open>offsetHeight\<close>).
  \<^verbatim>\<open>containerRef.current\<close> is a \<open>Container option\<close>: \<open>None\<close> is \<^verbatim>\<open>null\<close>.
\<close>

record Container =
  rect_left :: real
  rect_top :: real
  offsetWidth :: nat
  offsetHeight :: nat

text \<open>
  The state one mounted component holds: the two React states (\<open>position\<close> and
  \<open>opacity\<close>, here \<open>glow_opacity\<close>, since \<open>opacity\<close> is the field of a square),
  the refs \<open>mousePos\<close>, \<open>isHovering\<close> and \<open>squares\<close>, and the pixel size of the canvas.
\<close>

record State =
  position :: "real \<times> real"
  glow_opacity :: real
  mousePos :: "real \<times> real"
  isHovering :: bool
  squares :: "Square list"
  canvas_width :: nat
  canvas_height :: nat

text \<open>
  One \<^verbatim>\<open>ctx.fillRect(sq.x, sq.y, gridSize, gridSize)\<close> under the fill style
  \<^verbatim>\<open>rgba(255, 255, 255, currentOpacity)\<close>.
\<close>

record FillRect =
  fill_alpha :: real
  fill_x :: real
  fill_y :: real
  fill_w :: real
  fill_h :: real

text \<open>
  The calls of \<^verbatim>\<open>Math.random()\<close> one run of \<^verbatim>\<open>render\<close> can make, in the order of
  the source: the spawn chance, the two offsets, the opacity and the decay of the new square.
\<close>

record Draws =
  r_chance :: real
  r_offsetX :: real
  r_offsetY :: real
  r_opacity :: real
  r_decay :: real

definition unit_draw :: "real \<Rightarrow> bool" where
  "unit_draw u = (0 \<le> u \<and> u < 1)"

definition valid_draws :: "Draws \<Rightarrow> bool" where
  "valid_draws d =
     (unit_draw (r_chance d) \<and> unit_draw (r_offsetX d) \<and> unit_draw (r_offsetY d) \<and>
      unit_draw (r_opacity d) \<and> unit_draw (r_decay d))"

section \<open>Variant 1: handlers and the animation loop\<close>

definition gridSize :: real where
  "gridSize = 40"

definition sentinel :: "real \<times> real" where
  "sentinel = (- 1000, - 1000)"

text \<open>The values of the hooks at the first render of the component.\<close>

definition initial :: "nat \<Rightarrow> nat \<Rightarrow> State" where
  "initial w h =
     \<lparr>position = (- 100, - 100), glow_opacity = 0, mousePos = (- 1000, - 1000),
      isHovering = False, squares = [], canvas_width = w, canvas_height = h\<rparr>"

definition handleMouseMove :: "Container option \<Rightarrow> real \<Rightarrow> real \<Rightarrow> State \<Rightarrow> State" where
  "handleMouseMove container clientX clientY s =
     (case container of
        None \<Rightarrow> s
      | Some rect \<Rightarrow>
          (let x = clientX - rect_left rect;
               y = clientY - rect_top rect
           in s\<lparr>position := (x, y), glow_opacity := 1, mousePos := (x, y)\<rparr>))"

definition handleMouseEnter :: "State \<Rightarrow> State" where
  "handleMouseEnter s = s\<lparr>glow_opacity := 1, isHovering := True\<rparr>"

definition handleMouseLeave :: "State \<Rightarrow> State" where
  "handleMouseLeave s =
     s\<lparr>glow_opacity := 0, isHovering := False, mousePos := (- 1000, - 1000)\<rparr>"

definition resizeCanvas :: "Container option \<Rightarrow> State \<Rightarrow> State" where
  "resizeCanvas container s =
     (case container of
        None \<Rightarrow> s
      | Some c \<Rightarrow> s\<lparr>canvas_width := offsetWidth c, canvas_height := offsetHeight c\<rparr>)"

text \<open>
  The first half of \<^verbatim>\<open>render\<close>: \<^verbatim>\<open>if (isHovering.current) { if (Math.random() < 0.4) ... }\<close>.
\<close>

definition spawn :: "Draws \<Rightarrow> State \<Rightarrow> State" where
  "spawn d s =
     (if isHovering s then
        (if r_chance d < 0.4 then
           (let x = fst (mousePos s);
                y = snd (mousePos s);
                radius = 200;
                offsetX = (r_offsetX d - 0.5) * radius * 2;
                offsetY = (r_offsetY d - 0.5) * radius * 2;
                gridX = of_int \<lfloor>(x + offsetX) / gridSize\<rfloor> * gridSize;
                gridY = of_int \<lfloor>(y + offsetY) / gridSize\<rfloor> * gridSize;
                dist = sqrt ((gridX + gridSize / 2 - x)\<^sup>2 + (gridY + gridSize / 2 - y)\<^sup>2)
            in if dist < radius then
                 s\<lparr>squares := squares s @
                     [\<lparr>sq_x = gridX, sq_y = gridY, opacity = r_opacity d * 0.5 + 0.2,
                       life = 1.0, decay = r_decay d * 0.03 + 0.01\<rparr>]\<rparr>
               else s)
         else s)
      else s)"

text \<open>\<^verbatim>\<open>squares.current.splice(i, 1)\<close>\<close>

definition splice1 :: "nat \<Rightarrow> 'a list \<Rightarrow> 'a list" where
  "splice1 i xs = take i xs @ drop (Suc i) xs"

text \<open>The body of the loop up to the test: \<^verbatim>\<open>sq.life -= sq.decay\<close>.\<close>

definition age :: "Square \<Rightarrow> Square" where
  "age sq = sq\<lparr>life := life sq - decay sq\<rparr>"

definition paint :: "Square \<Rightarrow> FillRect" where
  "paint sq =
     (let currentOpacity = opacity sq * life sq
      in \<lparr>fill_alpha = currentOpacity, fill_x = sq_x sq, fill_y = sq_y sq,
          fill_w = gridSize, fill_h = gridSize\<rparr>)"

text \<open>
  The second half of \<^verbatim>\<open>render\<close>:
  \<^verbatim>\<open>for (let i = squares.current.length - 1; i >= 0; i--)\<close>. The first argument is
  \<open>i + 1\<close>, so that the loop ends at \<open>0\<close>; the list is the array as the loop has
  changed it so far, and the last argument collects the rectangles in the order they
  are painted.
\<close>

fun update_loop :: "nat \<Rightarrow> Square list \<Rightarrow> FillRect list \<Rightarrow> Square list \<times> FillRect list" where
  "update_loop 0 sqs out = (sqs, out)"
| "update_loop (Suc i) sqs out =
     (let sq = age (sqs ! i)
      in if life sq \<le> 0 then update_loop i (splice1 i sqs) out
         else update_loop i (sqs[i := sq]) (out @ [paint sq]))"

text \<open>
  One animation frame. \<^verbatim>\<open>ctx.clearRect\<close> empties the surface, so the rectangles
  returned are all that the surface shows after the frame.
\<close>

definition render :: "Draws \<Rightarrow> State \<Rightarrow> State \<times> FillRect list" where
  "render d s =
     (let s1 = spawn d s;
          (sqs, out) = update_loop (length (squares s1)) (squares s1) []
      in (s1\<lparr>squares := sqs\<rparr>, out))"

text \<open>
  The effect run at mount, once the canvas and its 2D context are there: the first
  \<^verbatim>\<open>resizeCanvas()\<close> and the first \<^verbatim>\<open>render()\<close>. The two numbers are the size of the
  canvas element before the effect.
\<close>

definition mount :: "nat \<Rightarrow> nat \<Rightarrow> Container option \<Rightarrow> Draws \<Rightarrow> State" where
  "mount w h container d = fst (render d (resizeCanvas container (initial w h)))"

text \<open>What can happen to a mounted component, and a run of such events.\<close>

datatype Event =
  MouseMove "Container option" real real
| MouseEnter
| MouseLeave
| Resize "Container option"
| Frame Draws

fun step :: "Event \<Rightarrow> State \<Rightarrow> State" where
  "step (MouseMove c cx cy) s = handleMouseMove c cx cy s"
| "step MouseEnter s = handleMouseEnter s"
| "step MouseLeave s = handleMouseLeave s"
| "step (Resize c) s = resizeCanvas c s"
| "step (Frame d) s = fst (render d s)"

fun run :: "Event list \<Rightarrow> State \<Rightarrow> State" where
  "run [] s = s"
| "run (e # es) s = run es (step e s)"

text \<open>What each event of a run leaves on the surface: a frame repaints, the others do not.\<close>

fun painted :: "Event list \<Rightarrow> State \<Rightarrow> FillRect list list" where
  "painted [] s = []"
| "painted (Frame d # es) s = snd (render d s) # painted es (step (Frame d) s)"
| "painted (e # es) s = painted es (step e s)"



text \<open>How many squares the frames of a run push.\<close>

definition pushed :: "Draws \<Rightarrow> State \<Rightarrow> nat" where
  "pushed d s = length (squares (spawn d s)) - length (squares s)"

fun spawn_count :: "Event list \<Rightarrow> State \<Rightarrow> nat" where
  "spawn_count [] s = 0"
| "spawn_count (Frame d # es) s = pushed d s + spawn_count es (step (Frame d) s)"
| "spawn_count (e # es) s = spawn_count es (step e s)"

text \<open>
  The loop said in one line: every square ages, and the ones whose life is then
  positive stay. That the loop computes this is proved below (\<open>update_loop_all\<close>).
\<close>

definition survivors :: "Square list \<Rightarrow> Square list" where
  "survivors sqs = filter (\<lambda>q. 0 < life q) (map age sqs)"

text \<open>The square a spawn attempt pushes when the distance test lets it.\<close>

definition new_square :: "Draws \<Rightarrow> State \<Rightarrow> Square" where
  "new_square d s =
     \<lparr>sq_x = of_int \<lfloor>(fst (mousePos s) + (r_offsetX d - 0.5) * 200 * 2) / gridSize\<rfloor> * gridSize,
      sq_y = of_int \<lfloor>(snd (mousePos s) + (r_offsetY d - 0.5) * 200 * 2) / gridSize\<rfloor> * gridSize,
      opacity = r_opacity d * 0.5 + 0.2, life = 1.0, decay = r_decay d * 0.03 + 0.01\<rparr>"


text \<open>When the spawn half pushes: hovering, the chance drawn, and the cell centre in the radius.\<close>

definition accepts :: "Draws \<Rightarrow> State \<Rightarrow> bool" where
  "accepts d s =
     (isHovering s \<and> r_chance d < 0.4 \<and>
      sqrt ((sq_x (new_square d s) + gridSize / 2 - fst (mousePos s))\<^sup>2 +
            (sq_y (new_square d s) + gridSize / 2 - snd (mousePos s))\<^sup>2) < 200)"

section \<open>Variant 2: handlers and the animation loop\<close>

text \<open>
  The second layout of the component has its own copy of the handlers and of the
  effect. They are translated from that copy, each under the name of the first
  variant followed by \<open>2\<close>.
\<close>

definition initial2 :: "nat \<Rightarrow> nat \<Rightarrow> State" where
  "initial2 w h =
     \<lparr>position = (- 100, - 100), glow_opacity = 0, mousePos = (- 1000, - 1000),
      isHovering = False, squares = [], canvas_width = w, canvas_height = h\<rparr>"

definition handleMouseMove2 :: "Container option \<Rightarrow> real \<Rightarrow> real \<Rightarrow> State \<Rightarrow> State" where
  "handleMouseMove2 container clientX clientY s =
     (case container of
        None \<Rightarrow> s
      | Some rect \<Rightarrow>
          (let x = clientX - rect_left rect;
               y = clientY - rect_top rect
           in s\<lparr>position := (x, y), glow_opacity := 1, mousePos := (x, y)\<rparr>))"

definition handleMouseEnter2 :: "State \<Rightarrow> State" where
  "handleMouseEnter2 s = s\<lparr>glow_opacity := 1, isHovering := True\<rparr>"

definition handleMouseLeave2 :: "State \<Rightarrow> State" where
  "handleMouseLeave2 s =
     s\<lparr>glow_opacity := 0, isHovering := False, mousePos := (- 1000, - 1000)\<rparr>"

definition resizeCanvas2 :: "Container option \<Rightarrow> State \<Rightarrow> State" where
  "resizeCanvas2 container s =
     (case container of
        None \<Rightarrow> s
      | Some c \<Rightarrow> s\<lparr>canvas_width := offsetWidth c, canvas_height := offsetHeight c\<rparr>)"

definition spawn2 :: "Draws \<Rightarrow> State \<Rightarrow> State" where
  "spawn2 d s =
     (if isHovering s then
        (if r_chance d < 0.4 then
           (let x = fst (mousePos s);
                y = snd (mousePos s);
                radius = 200;
                offsetX = (r_offsetX d - 0.5) * radius * 2;
                offsetY = (r_offsetY d - 0.5) * radius * 2;
                gridX = of_int \<lfloor>(x + offsetX) / gridSize\<rfloor> * gridSize;
                gridY = of_int \<lfloor>(y + offsetY) / gridSize\<rfloor> * gridSize;
                dist = sqrt ((gridX + gridSize / 2 - x)\<^sup>2 + (gridY + gridSize / 2 - y)\<^sup>2)
            in if dist < radius then
                 s\<lparr>squares := squares s @
                     [\<lparr>sq_x = gridX, sq_y = gridY, opacity = r_opacity d * 0.5 + 0.2,
                       life = 1.0, decay = r_decay d * 0.03 + 0.01\<rparr>]\<rparr>
               else s)
         else s)
      else s)"

fun update_loop2 :: "nat \<Rightarrow> Square list \<Rightarrow> FillRect list \<Rightarrow> Square list \<times> FillRect list" where
  "update_loop2 0 sqs out = (sqs, out)"
| "update_loop2 (Suc i) sqs out =
     (let sq = (sqs ! i)\<lparr>life := life (sqs ! i) - decay (sqs ! i)\<rparr>
      in if life sq \<le> 0 then update_loop2 i (take i sqs @ drop (Suc i) sqs) out
         else
           (let currentOpacity = opacity sq * life sq
            in update_loop2 i (sqs[i := sq])
                 (out @ [\<lparr>fill_alpha = currentOpacity, fill_x = sq_x sq, fill_y = sq_y sq,
                          fill_w = gridSize, fill_h = gridSize\<rparr>])))"

definition render2 :: "Draws \<Rightarrow> State \<Rightarrow> State \<times> FillRect list" where
  "render2 d s =
     (let s1 = spawn2 d s;
          (sqs, out) = update_loop2 (length (squares s1)) (squares s1) []
      in (s1\<lparr>squares := sqs\<rparr>, out))"

definition mount2 :: "nat \<Rightarrow> nat \<Rightarrow> Container option \<Rightarrow> Draws \<Rightarrow> State" where
  "mount2 w h container d = fst (render2 d (resizeCanvas2 container (initial2 w h)))"

fun step2 :: "Event \<Rightarrow> State \<Rightarrow> State" where
  "step2 (MouseMove c cx cy) s = handleMouseMove2 c cx cy s"
| "step2 MouseEnter s = handleMouseEnter2 s"
| "step2 MouseLeave s = handleMouseLeave2 s"
| "step2 (Resize c) s = resizeCanvas2 c s"
| "step2 (Frame d) s = fst (render2 d s)"

fun run2 :: "Event list \<Rightarrow> State \<Rightarrow> State" where
  "run2 [] s = s"
| "run2 (e # es) s = run2 es (step2 e s)"

fun painted2 :: "Event list \<Rightarrow> State \<Rightarrow> FillRect list list" where
  "painted2 [] s = []"
| "painted2 (Frame d # es) s = snd (render2 d s) # painted2 es (step2 (Frame d) s)"
| "painted2 (e # es) s = painted2 es (step2 e s)"

section \<open>The icon resolver\<close>

text \<open>
  \<^verbatim>\<open>ServiceIcon = ({ name, size }) => ...\<close>: the element returned is the icon
  component with its \<open>size\<close> prop (here \<open>sz\<close>), and \<open>None\<close> is \<^verbatim>\<open>null\<close>.
\<close>

datatype 'a Icon = Claude 'a | OpenAI 'a | Gemini 'a

definition ServiceIcon :: "string \<Rightarrow> 'a \<Rightarrow> 'a Icon option" where
  "ServiceIcon name sz =
     (if name = ''Claude'' then Some (Claude sz)
      else if name = ''OpenAI'' then Some (OpenAI sz)
      else if name = ''Gemini'' then Some (Gemini sz)
      else None)"

section \<open>Binary64 arithmetic\<close>

text \<open>
  A JavaScript number is a binary64 value, and each arithmetic operation returns the
  exact result rounded to the nearest such value. The model above computes in the reals,
  which is enough for what the claims say of the life, the opacity and the decay of a
  square. Two claims depend on the rounding itself: the countdown of a life by its decay
  quotes computed values, and where a square is pushed depends on a distance test that
  the rounding decides at the boundary. For these the loop body and the spawn half are
  given here with the rounding.
\<close>

text \<open>Rounding to the nearest integer, a tie to the even one.\<close>

definition rne :: "real \<Rightarrow> int" where
  "rne t =
     (let n = \<lfloor>t\<rfloor>; f = t - of_int n
      in if f < 1 / 2 then n else if 1 / 2 < f then n + 1 else if even n then n else n + 1)"

text \<open>
  The exponent \<open>e\<close> with \<open>2 ^ e \<le> v < 2 ^ (e + 1)\<close> of a positive \<open>v\<close>, by doubling
  or halving at most as many times as the first argument says.
\<close>

fun binade :: "nat \<Rightarrow> real \<Rightarrow> int" where
  "binade 0 v = 0"
| "binade (Suc n) v =
     (if v < 1 then binade n (2 * v) - 1 else if 2 \<le> v then binade n (v / 2) + 1 else 0)"

text \<open>
  The binary64 value nearest to a real: 53 significant bits, the exponent not below
  \<open>-1022\<close> (so that subnormal results are spaced \<open>2 ^ -1074\<close> apart). Results beyond
  the largest finite value, which JavaScript gives as \<^verbatim>\<open>Infinity\<close>, are not modelled.
\<close>

definition binary64 :: "real \<Rightarrow> real" where
  "binary64 v =
     (if v = 0 then 0
      else (let e = max (binade 1100 \<bar>v\<bar>) (- 1022); q = 2 powi (e - 52)
            in of_int (rne (v / q)) * q))"

text \<open>The exponent \<open>binary64\<close> rounds at, on its own.\<close>

definition exponent64 :: "real \<Rightarrow> int" where
  "exponent64 v = max (binade 1100 \<bar>v\<bar>) (- 1022)"

text \<open>The two statements of the loop body that compute, with their results rounded.\<close>

definition age64 :: "Square \<Rightarrow> Square" where
  "age64 sq = sq\<lparr>life := binary64 (life sq - decay sq)\<rparr>"

definition paint64 :: "Square \<Rightarrow> FillRect" where
  "paint64 sq =
     (let currentOpacity = binary64 (opacity sq * life sq)
      in \<lparr>fill_alpha = currentOpacity, fill_x = sq_x sq, fill_y = sq_y sq,
          fill_w = gridSize, fill_h = gridSize\<rparr>)"

text \<open>
  The square of the third scenario of the specification at life \<open>l\<close>; its two
  literals are the binary64 values the source text \<^verbatim>\<open>0.6\<close> and \<^verbatim>\<open>0.05\<close> denotes.
\<close>

definition square64 :: "real \<Rightarrow> Square" where
  "square64 l =
     \<lparr>sq_x = 0, sq_y = 0, opacity = binary64 0.6, life = l, decay = binary64 0.05\<rparr>"

text \<open>
  The spawn half of \<^verbatim>\<open>render\<close> with the rounding: every \<^verbatim>\<open>+\<close>, \<^verbatim>\<open>-\<close>, \<^verbatim>\<open>*\<close> and
  \<^verbatim>\<open>/\<close> of lines 88 to 110 returns the binary64 value nearest to the exact result, and
  so do \<^verbatim>\<open>Math.pow(v, 2)\<close> and \<^verbatim>\<open>Math.sqrt\<close>, taken as correctly rounded;
  \<^verbatim>\<open>Math.floor\<close> is exact. The literals \<^verbatim>\<open>0.4\<close>, \<^verbatim>\<open>0.2\<close>, \<^verbatim>\<open>0.03\<close> and \<^verbatim>\<open>0.01\<close>
  stand for the binary64 values nearest to them. First the three steps on their own: the
  candidate on one axis from a draw \<open>u\<close> and the pointer coordinate \<open>p\<close>, the snap of a
  candidate, and the distance from the centre of the cell at \<open>(gx, gy)\<close> to the pointer.
\<close>

definition candidate64 :: "real \<Rightarrow> real \<Rightarrow> real" where
  "candidate64 u p = binary64 (p + binary64 (binary64 (binary64 (u - 0.5) * 200) * 2))"

definition snap64 :: "real \<Rightarrow> real" where
  "snap64 c = binary64 (of_int \<lfloor>binary64 (c / gridSize)\<rfloor> * gridSize)"

definition dist64 :: "real \<Rightarrow> real \<Rightarrow> real \<Rightarrow> real \<Rightarrow> real" where
  "dist64 gx gy x y =
     binary64 (sqrt (binary64
       (binary64 ((binary64 (binary64 (gx + binary64 (gridSize / 2)) - x))\<^sup>2) +
        binary64 ((binary64 (binary64 (gy + binary64 (gridSize / 2)) - y))\<^sup>2))))"

text \<open>Then the spawn half as the source has it.\<close>

definition spawn64 :: "Draws \<Rightarrow> State \<Rightarrow> State" where
  "spawn64 d s =
     (if isHovering s then
        (if r_chance d < binary64 0.4 then
           (let x = fst (mousePos s);
                y = snd (mousePos s);
                radius = 200;
                offsetX = binary64 (binary64 (binary64 (r_offsetX d - 0.5) * radius) * 2);
                offsetY = binary64 (binary64 (binary64 (r_offsetY d - 0.5) * radius) * 2);
                gridX = binary64 (of_int \<lfloor>binary64 (binary64 (x + offsetX) / gridSize)\<rfloor> * gridSize);
                gridY = binary64 (of_int \<lfloor>binary64 (binary64 (y + offsetY) / gridSize)\<rfloor> * gridSize);
                dist = binary64 (sqrt (binary64
                  (binary64 ((binary64 (binary64 (gridX + binary64 (gridSize / 2)) - x))\<^sup>2) +
                   binary64 ((binary64 (binary64 (gridY + binary64 (gridSize / 2)) - y))\<^sup>2))))
            in if dist < radius then
                 s\<lparr>squares := squares s @
                     [\<lparr>sq_x = gridX, sq_y = gridY,
                       opacity = binary64 (binary64 (r_opacity d * 0.5) + binary64 0.2),
                       life = 1.0,
                       decay = binary64 (binary64 (r_decay d * binary64 0.03) + binary64 0.01)\<rparr>]\<rparr>
               else s)
         else s)
      else s)"

section \<open>The loop, the spawn half and the invariant of the squares\<close>

lemma take_splice1: "i \<le> length xs \<Longrightarrow> take i (splice1 i xs) = take i xs"
  by (simp add: splice1_def)

lemma drop_splice1: "i \<le> length xs \<Longrightarrow> drop i (splice1 i xs) = drop (Suc i) xs"
  by (simp add: splice1_def)

lemma length_splice1: "i < length xs \<Longrightarrow> length (splice1 i xs) = length xs - 1"
  by (simp add: splice1_def)

lemma update_loop_prefix:
  "i \<le> length sqs \<Longrightarrow>
   update_loop i sqs out =
     (survivors (take i sqs) @ drop i sqs, out @ map paint (rev (survivors (take i sqs))))"
proof (induction i arbitrary: sqs out)
  case 0
  then show ?case by (simp add: survivors_def)
next
  case (Suc i)
  then have lt: "i < length sqs" by simp
  then have tk: "take (Suc i) sqs = take i sqs @ [sqs ! i]"
    by (simp add: take_Suc_conv_app_nth)
  show ?case
  proof (cases "life (age (sqs ! i)) \<le> 0")
    case True
    have le: "i \<le> length (splice1 i sqs)" using lt by (simp add: length_splice1)
    show ?thesis
      using True lt Suc.IH [OF le, of out]
      by (simp add: tk survivors_def take_splice1 drop_splice1 Let_def)
  next
    case False
    have le: "i \<le> length (sqs[i := age (sqs ! i)])" using lt by simp
    show ?thesis
      using False lt Suc.IH [OF le, of "out @ [paint (age (sqs ! i))]"]
      by (simp add: tk survivors_def upd_conv_take_nth_drop Let_def)
  qed
qed

lemma update_loop_all:
  "update_loop (length sqs) sqs [] = (survivors sqs, map paint (rev (survivors sqs)))"
  using update_loop_prefix [of "length sqs" sqs "[]"] by simp

lemma render_eq:
  "render d s =
     ((spawn d s)\<lparr>squares := survivors (squares (spawn d s))\<rparr>,
      map paint (rev (survivors (squares (spawn d s)))))"
  by (simp add: render_def update_loop_all Let_def)

lemma dist_less_iff:
  fixes v r :: real
  assumes "0 < r"
  shows "sqrt v < r \<longleftrightarrow> v < r\<^sup>2"
proof -
  have "sqrt v < r \<longleftrightarrow> sqrt v < sqrt (r\<^sup>2)"
    using assms by simp
  also have "\<dots> \<longleftrightarrow> v < r\<^sup>2"
    by (rule real_sqrt_less_iff)
  finally show ?thesis .
qed

lemma spawn_eq:
  "spawn d s = (if accepts d s then s\<lparr>squares := squares s @ [new_square d s]\<rparr> else s)"
  by (simp add: spawn_def accepts_def new_square_def Let_def)

lemma squares_spawn:
  "squares (spawn d s) = (if accepts d s then squares s @ [new_square d s] else squares s)"
  by (simp add: spawn_eq)





lemma squares_handlers [simp]:
  "squares (handleMouseMove c cx cy s) = squares s"
  "squares (handleMouseEnter s) = squares s"
  "squares (handleMouseLeave s) = squares s"
  "squares (resizeCanvas c s) = squares s"
  by (simp_all add: handleMouseMove_def handleMouseEnter_def handleMouseLeave_def
      resizeCanvas_def Let_def split: option.splits)

lemma mount_squares: "squares (mount w h c d) = []"
  by (simp add: mount_def render_eq squares_spawn accepts_def resizeCanvas_def initial_def
      survivors_def split: option.splits)



lemma valid_draws_simp:
  "valid_draws \<lparr>r_chance = a, r_offsetX = b, r_offsetY = c, r_opacity = e, r_decay = f\<rparr> =
     (0 \<le> a \<and> a < 1 \<and> 0 \<le> b \<and> b < 1 \<and> 0 \<le> c \<and> c < 1 \<and> 0 \<le> e \<and> e < 1 \<and> 0 \<le> f \<and> f < 1)"
  by (simp add: valid_draws_def unit_draw_def)



lemma mount_eq: "mount w h c d = resizeCanvas c (initial w h)"
  by (simp add: mount_def render_eq spawn_eq accepts_def resizeCanvas_def initial_def
      survivors_def split: option.splits)

lemma survivors_simps [simp]:
  "survivors [] = []"
  "survivors (q # qs) = (if 0 < life q - decay q then [age q] else []) @ survivors qs"
  by (simp_all add: survivors_def age_def)

lemma survivors_append [simp]: "survivors (xs @ ys) = survivors xs @ survivors ys"
  by (simp add: survivors_def)

section \<open>Rounding to binary64: order, integers, and the half quantum\<close>

text \<open>
  What the claims on the spawn half need of \<open>binary64\<close>: it keeps the order of the
  reals (below \<open>2 ^ 1024\<close> in magnitude), it leaves an integer below \<open>2 ^ 53\<close> in
  magnitude as it is, and it moves a value by at most half the spacing at its exponent.
\<close>

lemma rne_cases: "rne t = \<lfloor>t\<rfloor> \<or> rne t = \<lfloor>t\<rfloor> + 1"
  by (simp add: rne_def Let_def)

lemma rne_of_int [simp]: "rne (of_int k) = k"
  by (simp add: rne_def Let_def)

lemma rne_lower: "t - of_int \<lfloor>t\<rfloor> < 1 / 2 \<Longrightarrow> rne t = \<lfloor>t\<rfloor>"
  by (simp add: rne_def Let_def)

lemma rne_upper: "1 / 2 < t - of_int \<lfloor>t\<rfloor> \<Longrightarrow> rne t = \<lfloor>t\<rfloor> + 1"
  by (simp add: rne_def Let_def)

lemma rne_mono:
  assumes "s \<le> t"
  shows "rne s \<le> rne t"
proof (cases "\<lfloor>s\<rfloor> < \<lfloor>t\<rfloor>")
  case True
  have "rne s \<le> \<lfloor>s\<rfloor> + 1" using rne_cases [of s] by auto
  also have "\<dots> \<le> \<lfloor>t\<rfloor>" using True by simp
  also have "\<dots> \<le> rne t" using rne_cases [of t] by auto
  finally show ?thesis .
next
  case False
  then have eq: "\<lfloor>s\<rfloor> = \<lfloor>t\<rfloor>" using floor_mono [OF assms] by simp
  then have fr: "s - of_int \<lfloor>s\<rfloor> \<le> t - of_int \<lfloor>t\<rfloor>" using assms by simp
  show ?thesis
    using fr eq by (auto simp: rne_def Let_def)
qed

lemma rne_nonneg: "0 \<le> t \<Longrightarrow> 0 \<le> rne t"
  using rne_mono [of 0 t] rne_of_int [of 0] by simp

lemma rne_minus: "rne (- t) = - rne t"
proof (cases "t = of_int \<lfloor>t\<rfloor>")
  case True
  then obtain k where "t = of_int k" ..
  then have "- t = of_int (- k)" by simp
  then show ?thesis using \<open>t = of_int k\<close> by (simp only: rne_of_int)
next
  case False
  then have fl: "\<lfloor>- t\<rfloor> = - \<lfloor>t\<rfloor> - 1"
    by (metis ceiling_altdef ceiling_def  add.commute diff_minus_eq_add minus_diff_eq neg_equal_iff_equal uminus_add_conv_diff)
  have fr: "- t - of_int \<lfloor>- t\<rfloor> = 1 - (t - of_int \<lfloor>t\<rfloor>)" by (simp add: fl)
  show ?thesis
    unfolding rne_def Let_def fr unfolding fl
    by (auto simp: algebra_simps)
qed


lemma binade_le_0: "v < 2 \<Longrightarrow> binade n v \<le> 0"
proof (induction n arbitrary: v)
  case 0
  then show ?case by simp
next
  case (Suc n)
  show ?case
  proof (cases "v < 1")
    case True
    then have "binade n (2 * v) \<le> 0" by (intro Suc.IH) simp
    then show ?thesis using True by simp
  next
    case False
    then show ?thesis using Suc.prems by simp
  qed
qed

lemma binade_small: "k \<le> n \<Longrightarrow> v < 1 / 2 ^ k \<Longrightarrow> binade n v \<le> - int k"
proof (induction k arbitrary: n v)
  case 0
  then show ?case using binade_le_0 [of v n] by simp
next
  case (Suc k)
  then obtain m where n: "n = Suc m" and km: "k \<le> m" by (cases n) auto
  have "v < 1 / 2 ^ Suc k" by (rule Suc.prems(2))
  also have "\<dots> \<le> 1"
    using one_le_power [of "2::real" "Suc k"] by (simp add: divide_le_eq_1)
  finally have v1: "v < 1" .
  have "2 * v < 1 / 2 ^ k" using Suc.prems(2) by (simp add: field_simps)
  then have "binade m (2 * v) \<le> - int k" by (rule Suc.IH [OF km])
  then show ?case using v1 by (simp add: n)
qed

lemma binade_correct:
  "1 / 2 ^ n \<le> v \<Longrightarrow> v < 2 ^ Suc n \<Longrightarrow>
   2 powi (binade n v) \<le> v \<and> v < 2 powi (binade n v + 1)"
proof (induction n arbitrary: v)
  case 0
  then show ?case by simp
next
  case (Suc n)
  show ?case
  proof (cases "v < 1")
    case True
    have a: "1 / 2 ^ n \<le> 2 * v" using Suc.prems(1) by (simp add: field_simps)
    have "2 * v < 2" using True by simp
    also have "\<dots> \<le> 2 ^ Suc n" by simp
    finally have b: "2 * v < 2 ^ Suc n" .
    from Suc.IH [OF a b]
    have ih: "2 powi (binade n (2 * v)) \<le> 2 * v" "2 * v < 2 powi (binade n (2 * v) + 1)"
      by simp_all
    have e: "(2::real) powi (binade n (2 * v) - 1) = 2 powi (binade n (2 * v)) / 2"
      by (simp add: power_int_diff)
    have f: "(2::real) powi (binade n (2 * v) + 1) = 2 powi (binade n (2 * v)) * 2"
      by (simp add: power_int_add)
    show ?thesis using True ih by (simp add: e f)
  next
    case False
    show ?thesis
    proof (cases "2 \<le> v")
      case True
      have "1 / 2 ^ n \<le> (1::real)"
        using one_le_power [of "2::real" n] by (simp add: divide_le_eq_1)
      also have "\<dots> \<le> v / 2" using True by simp
      finally have a: "1 / 2 ^ n \<le> v / 2" .
      have b: "v / 2 < 2 ^ Suc n" using Suc.prems(2) by simp
      from Suc.IH [OF a b]
      have ih: "2 powi (binade n (v / 2)) \<le> v / 2" "v / 2 < 2 powi (binade n (v / 2) + 1)"
        by simp_all
      have f: "(2::real) powi (binade n (v / 2) + 1) = 2 powi (binade n (v / 2)) * 2"
        by (simp add: power_int_add)
      have g: "(2::real) powi (2 + binade n (v / 2)) = 4 * 2 powi (binade n (v / 2))"
        by (simp add: power_int_add)
      show ?thesis using True False ih by (simp add: f g)
    next
      case F2: False
      then show ?thesis using False by simp
    qed
  qed
qed


lemma pow2_less_iff: "(2::real) powi a < 2 powi b \<longleftrightarrow> a < b"
proof
  assume l: "(2::real) powi a < 2 powi b"
  show "a < b"
  proof (rule ccontr)
    assume "\<not> a < b"
    then have "b \<le> a" by simp
    then have "(2::real) powi b \<le> 2 powi a" by (rule power_int_increasing) simp
    with l show False by simp
  qed
next
  assume "a < b"
  then show "(2::real) powi a < 2 powi b" by (rule power_int_strict_increasing) simp
qed

lemma pow2_le_iff: "(2::real) powi a \<le> 2 powi b \<longleftrightarrow> a \<le> b"
  using pow2_less_iff [of b a] by (simp add: not_less [symmetric])

lemma binary64_eq:
  "v \<noteq> 0 \<Longrightarrow>
   binary64 v = of_int (rne (v / 2 powi (exponent64 v - 52))) * 2 powi (exponent64 v - 52)"
  by (simp add: binary64_def exponent64_def Let_def)

lemma exponent64_ge: "- 1022 \<le> exponent64 v"
  by (simp add: exponent64_def)

lemma exponent64_minus [simp]: "exponent64 (- v) = exponent64 v"
  by (simp add: exponent64_def)

lemma exponent64_bounds:
  assumes "0 < v" and "v < 2 ^ 1024"
  shows "v < 2 powi (exponent64 v + 1)"
    and "- 1022 < exponent64 v \<Longrightarrow> 2 powi (exponent64 v) \<le> v"
proof -
  have av: "\<bar>v\<bar> = v" using assms(1) by simp
  show "v < 2 powi (exponent64 v + 1)"
  proof (cases "v < 1 / 2 ^ 1022")
    case True
    have "binade 1100 v \<le> - int 1022" by (rule binade_small [OF _ True]) simp
    then have e: "exponent64 v = - 1022" by (simp add: exponent64_def av)
    have "v < 2 powi (- 1022)" using True by (simp add: power_int_minus_divide)
    also have "\<dots> < 2 powi (- 1022 + 1)" by (simp only: pow2_less_iff)
    finally show ?thesis by (simp only: e)
  next
    case False
    have "(1::real) / 2 ^ 1100 \<le> 1 / 2 ^ 1022"
      by (intro divide_left_mono power_increasing) simp_all
    then have a: "1 / 2 ^ 1100 \<le> v" using False by simp
    have "(2::real) ^ 1024 \<le> 2 ^ Suc 1100" by (intro power_increasing) simp_all
    then have b: "v < 2 ^ Suc 1100" using assms(2) by simp
    note c = binade_correct [OF a b]
    have "2 powi (- 1022) \<le> v" using False by (simp add: power_int_minus_divide)
    also have "\<dots> < 2 powi (binade 1100 v + 1)" using c by simp
    finally have "- 1022 < binade 1100 v + 1" by (simp only: pow2_less_iff)
    then have e: "exponent64 v = binade 1100 v" by (simp add: exponent64_def av)
    show ?thesis using c by (simp only: e)
  qed
  show "2 powi (exponent64 v) \<le> v" if n: "- 1022 < exponent64 v"
  proof (cases "v < 1 / 2 ^ 1022")
    case True
    have "binade 1100 v \<le> - int 1022" by (rule binade_small [OF _ True]) simp
    then have "exponent64 v = - 1022" by (simp add: exponent64_def av)
    with n show ?thesis by simp
  next
    case False
    have "(1::real) / 2 ^ 1100 \<le> 1 / 2 ^ 1022"
      by (intro divide_left_mono power_increasing) simp_all
    then have a: "1 / 2 ^ 1100 \<le> v" using False by simp
    have "(2::real) ^ 1024 \<le> 2 ^ Suc 1100" by (intro power_increasing) simp_all
    then have b: "v < 2 ^ Suc 1100" using assms(2) by simp
    note c = binade_correct [OF a b]
    have e: "exponent64 v = binade 1100 v" using n by (simp add: exponent64_def av max_def split: if_splits)
    show ?thesis using c by (simp only: e)
  qed
qed


lemma binary64_0 [simp]: "binary64 0 = 0"
  by (simp add: binary64_def)

lemma binary64_minus: "binary64 (- v) = - binary64 v"
proof (cases "v = 0")
  case True
  then show ?thesis by simp
next
  case False
  then show ?thesis by (simp add: binary64_eq rne_minus)
qed

lemma binary64_nonneg: "0 \<le> v \<Longrightarrow> 0 \<le> binary64 v"
proof (cases "v = 0")
  case True
  then show ?thesis by simp
next
  case False
  assume "0 \<le> v"
  then have "0 \<le> v / 2 powi (exponent64 v - 52)" by simp
  then have "0 \<le> rne (v / 2 powi (exponent64 v - 52))" by (rule rne_nonneg)
  then show ?thesis using False by (simp add: binary64_eq)
qed

lemma quantum_split: "(2::real) powi e = 2 ^ 52 * 2 powi (e - 52)"
proof -
  have "(2::real) powi e = 2 powi (52 + (e - 52))" by simp
  also have "\<dots> = 2 powi 52 * 2 powi (e - 52)" by (rule power_int_add) simp
  finally show ?thesis by simp
qed

lemma quantum_split1: "(2::real) powi (e + 1) = 2 ^ 53 * 2 powi (e - 52)"
proof -
  have "e + 1 = 53 + (e - 52)" by simp
  then have "(2::real) powi (e + 1) = 2 powi (53 + (e - 52))" by (rule arg_cong)
  also have "\<dots> = 2 powi 53 * 2 powi (e - 52)" by (rule power_int_add) simp
  finally show ?thesis by simp
qed

lemma binary64_mono_pos:
  assumes "0 < x" and "x \<le> y" and "y < 2 ^ 1024"
  shows "binary64 x \<le> binary64 y"
proof -
  let ?ex = "exponent64 x" and ?ey = "exponent64 y"
  let ?qx = "(2::real) powi (?ex - 52)" and ?qy = "(2::real) powi (?ey - 52)"
  have y0: "0 < y" and x2: "x < 2 ^ 1024" using assms by simp_all
  have fx: "binary64 x = of_int (rne (x / ?qx)) * ?qx" using assms(1) by (simp add: binary64_eq)
  have fy: "binary64 y = of_int (rne (y / ?qy)) * ?qy" using y0 by (simp add: binary64_eq)
  have qx0: "0 < ?qx" and qy0: "0 < ?qy" by simp_all
  note cx = exponent64_bounds [OF assms(1) x2]
  note cy = exponent64_bounds [OF y0 assms(3)]
  have le: "?ex \<le> ?ey"
  proof (rule ccontr)
    assume "\<not> ?ex \<le> ?ey"
    then have gt: "?ey < ?ex" by simp
    then have "- 1022 < ?ex" using exponent64_ge [of y] by linarith
    then have "2 powi ?ex \<le> x" by (rule cx(2))
    also have "\<dots> \<le> y" by (rule assms(2))
    also have "\<dots> < 2 powi (?ey + 1)" by (rule cy(1))
    finally have "?ex < ?ey + 1" by (simp only: pow2_less_iff)
    with gt show False by simp
  qed
  show ?thesis
  proof (cases "?ex = ?ey")
    case True
    have "x / ?qy \<le> y / ?qy" using assms(2) qy0 by (simp add: divide_right_mono)
    then have "rne (x / ?qy) \<le> rne (y / ?qy)" by (rule rne_mono)
    then have "of_int (rne (x / ?qy)) * ?qy \<le> of_int (rne (y / ?qy)) * ?qy"
      using qy0 by (simp add: mult_right_mono)
    then show ?thesis by (simp only: fx fy True)
  next
    case False
    with le have lt: "?ex < ?ey" by simp
    then have "- 1022 < ?ey" using exponent64_ge [of x] by linarith
    then have ly: "2 powi ?ey \<le> y" by (rule cy(2))
    have "x < 2 powi (?ex + 1)" by (rule cx(1))
    also have "\<dots> = 2 ^ 53 * ?qx" by (rule quantum_split1)
    finally have "x / ?qx < 2 ^ 53" using qx0 by (simp add: field_simps)
    then have "x / ?qx \<le> of_int (2 ^ 53)" by simp
    then have "rne (x / ?qx) \<le> rne (of_int (2 ^ 53))" by (rule rne_mono)
    then have "rne (x / ?qx) \<le> 2 ^ 53" by (simp only: rne_of_int)
    then have "(of_int (rne (x / ?qx)) :: real) \<le> of_int (2 ^ 53)" by (simp only: of_int_le_iff)
    then have "of_int (rne (x / ?qx)) * ?qx \<le> 2 ^ 53 * ?qx"
      using qx0 by (simp add: mult_right_mono)
    also have "\<dots> = 2 powi (?ex + 1)" by (rule quantum_split1 [symmetric])
    also have "\<dots> \<le> 2 powi ?ey" using lt by (simp only: pow2_le_iff)
    finally have a: "binary64 x \<le> 2 powi ?ey" by (simp only: fx)
    have "2 ^ 52 * ?qy = 2 powi ?ey" by (rule quantum_split [symmetric])
    then have "2 ^ 52 * ?qy \<le> y" using ly by simp
    then have "of_int (2 ^ 52) \<le> y / ?qy" using qy0 by (simp add: field_simps)
    then have "rne (of_int (2 ^ 52)) \<le> rne (y / ?qy)" by (rule rne_mono)
    then have "2 ^ 52 \<le> rne (y / ?qy)" by (simp only: rne_of_int)
    then have "(of_int (2 ^ 52) :: real) \<le> of_int (rne (y / ?qy))" by (simp only: of_int_le_iff)
    then have "2 ^ 52 * ?qy \<le> of_int (rne (y / ?qy)) * ?qy"
      using qy0 by (simp add: mult_right_mono)
    then have b: "2 powi ?ey \<le> binary64 y" by (simp only: fy quantum_split [symmetric])
    show ?thesis using a b by linarith
  qed
qed

lemma binary64_mono:
  assumes "x \<le> y" and "\<bar>x\<bar> < 2 ^ 1024" and "\<bar>y\<bar> < 2 ^ 1024"
  shows "binary64 x \<le> binary64 y"
proof -
  consider "0 < x" | "x \<le> 0" "0 \<le> y" | "y < 0" by linarith
  then show ?thesis
  proof cases
    case 1
    then show ?thesis using assms by (intro binary64_mono_pos) simp_all
  next
    case 2
    have "binary64 x = - binary64 (- x)" by (simp add: binary64_minus)
    moreover have "0 \<le> binary64 (- x)" using 2(1) by (intro binary64_nonneg) simp
    moreover have "0 \<le> binary64 y" using 2(2) by (rule binary64_nonneg)
    ultimately show ?thesis by linarith
  next
    case 3
    have "binary64 (- y) \<le> binary64 (- x)"
      using 3 assms by (intro binary64_mono_pos) simp_all
    then show ?thesis by (simp add: binary64_minus)
  qed
qed


lemma in_range: "\<bar>v\<bar> \<le> 2 ^ 60 \<Longrightarrow> \<bar>v::real\<bar> < 2 ^ 1024"
proof -
  assume "\<bar>v\<bar> \<le> 2 ^ 60"
  also have "(2::real) ^ 60 < 2 ^ 1024" by (rule power_strict_increasing) simp_all
  finally show ?thesis .
qed

lemma binary64_of_int_pos:
  assumes "0 < n" and "n < 2 ^ 53"
  shows "binary64 (of_int n) = of_int n"
proof -
  let ?v = "of_int n :: real"
  let ?e = "exponent64 ?v"
  have v0: "0 < ?v" and v1: "1 \<le> ?v" using assms(1) by simp_all
  have "?v < of_int (2 ^ 53)" using assms(2) by (simp only: of_int_less_iff)
  then have v53: "?v < 2 ^ 53" by simp
  also have "(2::real) ^ 53 < 2 ^ 1024" by (rule power_strict_increasing) simp_all
  finally have vr: "?v < 2 ^ 1024" .
  note b = exponent64_bounds [OF v0 vr]
  have "(2::real) powi 0 \<le> ?v" using v1 by simp
  also have "\<dots> < 2 powi (?e + 1)" by (rule b(1))
  finally have "0 < ?e + 1" by (simp only: pow2_less_iff)
  then have e0: "0 \<le> ?e" by simp
  then have "2 powi ?e \<le> ?v" by (intro b(2)) simp
  also have "\<dots> < 2 powi 53" using v53 by simp
  finally have "?e < 53" by (simp only: pow2_less_iff)
  then have e52: "?e \<le> 52" by simp
  define k where "k = nat (52 - ?e)"
  have "?e - 52 = - int k" using e52 by (simp add: k_def)
  then have q: "(2::real) powi (?e - 52) = 1 / 2 ^ k"
    by (simp add: power_int_minus_divide)
  have "?v / (1 / 2 ^ k) = of_int (n * 2 ^ k)" by simp
  then have "rne (?v / (1 / 2 ^ k)) = n * 2 ^ k" by (simp only: rne_of_int)
  then have "of_int (rne (?v / (1 / 2 ^ k))) * (1 / 2 ^ k) = ?v" by simp
  then show ?thesis using v0 by (simp add: binary64_eq q)
qed

lemma binary64_of_int:
  assumes "\<bar>n\<bar> < 2 ^ 53"
  shows "binary64 (of_int n) = of_int n"
proof -
  consider "0 < n" | "n = 0" | "n < 0" by linarith
  then show ?thesis
  proof cases
    case 1
    then show ?thesis using assms by (intro binary64_of_int_pos) simp_all
  next
    case 2
    then show ?thesis by simp
  next
    case 3
    then have "binary64 (of_int (- n)) = of_int (- n)"
      using assms by (intro binary64_of_int_pos) simp_all
    then show ?thesis by (simp add: binary64_minus)
  qed
qed

lemma binary64_between_int:
  assumes "of_int a \<le> v" and "v \<le> of_int b" and "\<bar>a\<bar> < 2 ^ 53" and "\<bar>b\<bar> < 2 ^ 53"
  shows "of_int a \<le> binary64 v" and "binary64 v \<le> of_int b"
proof -
  have "(of_int \<bar>a\<bar> :: real) < of_int (2 ^ 53)" using assms(3) by (simp only: of_int_less_iff)
  then have ra: "\<bar>of_int a :: real\<bar> \<le> 2 ^ 60"
    using power_increasing [of 53 60 "2::real"] by simp
  have "(of_int \<bar>b\<bar> :: real) < of_int (2 ^ 53)" using assms(4) by (simp only: of_int_less_iff)
  then have rb: "\<bar>of_int b :: real\<bar> \<le> 2 ^ 60"
    using power_increasing [of 53 60 "2::real"] by simp
  have rv: "\<bar>v\<bar> \<le> 2 ^ 60" using assms(1,2) ra rb by linarith
  have "binary64 (of_int a) \<le> binary64 v"
    by (intro binary64_mono assms(1) in_range ra rv)
  then show "of_int a \<le> binary64 v" by (simp only: binary64_of_int [OF assms(3)])
  have "binary64 v \<le> binary64 (of_int b)"
    by (intro binary64_mono assms(2) in_range rb rv)
  then show "binary64 v \<le> of_int b" by (simp only: binary64_of_int [OF assms(4)])
qed


lemma binary64_half: "binary64 (1 / 2) = 1 / 2"
  by (simp add: binary64_def rne_def eval_nat_numeral Let_def power_int_def)

lemma offset64_bounds:
  assumes "0 \<le> u" and "u < 1"
  shows "- 200 \<le> binary64 (binary64 (binary64 (u - 0.5) * 200) * 2)"
    and "binary64 (binary64 (binary64 (u - 0.5) * 200) * 2) \<le> 200"
proof -
  let ?a = "binary64 (u - 0.5)"
  let ?b = "binary64 (?a * 200)"
  have "binary64 (- (1 / 2)) \<le> ?a"
    using assms by (intro binary64_mono in_range) simp_all
  then have a1: "- (1 / 2) \<le> ?a" by (simp only: binary64_minus binary64_half)
  have "?a \<le> binary64 (1 / 2)"
    using assms by (intro binary64_mono in_range) simp_all
  then have a2: "?a \<le> 1 / 2" by (simp only: binary64_half)
  have "of_int (- 100) \<le> ?a * 200" "?a * 200 \<le> of_int 100" using a1 a2 by simp_all
  then have "of_int (- 100) \<le> ?b" "?b \<le> of_int 100"
    by (rule binary64_between_int; simp)+
  then have "of_int (- 200) \<le> ?b * 2" "?b * 2 \<le> of_int 200" by simp_all
  then have "of_int (- 200) \<le> binary64 (?b * 2)" "binary64 (?b * 2) \<le> of_int 200"
    by (rule binary64_between_int; simp)+
  then show "- 200 \<le> binary64 (?b * 2)" "binary64 (?b * 2) \<le> 200" by simp_all
qed

lemma candidate64_bounds:
  assumes "0 \<le> u" and "u < 1" and "\<bar>p\<bar> \<le> 2 ^ 31"
  shows "binary64 (p - 200) \<le> candidate64 u p"
    and "candidate64 u p \<le> binary64 (p + 200)"
    and "\<bar>candidate64 u p\<bar> \<le> 2 ^ 32"
proof -
  let ?o = "binary64 (binary64 (binary64 (u - 0.5) * 200) * 2)"
  note o = offset64_bounds [OF assms(1,2)]
  have c: "candidate64 u p = binary64 (p + ?o)" by (simp add: candidate64_def)
  have r: "\<bar>p + ?o\<bar> \<le> 2 ^ 60" "\<bar>p - 200\<bar> \<le> 2 ^ 60" "\<bar>p + 200\<bar> \<le> 2 ^ 60"
    using o assms(3) by simp_all
  show "binary64 (p - 200) \<le> candidate64 u p"
    unfolding c using o by (intro binary64_mono in_range r) simp
  show "candidate64 u p \<le> binary64 (p + 200)"
    unfolding c using o by (intro binary64_mono in_range r) simp
  have "of_int (- (2 ^ 32)) \<le> p + ?o" "p + ?o \<le> of_int (2 ^ 32)"
    using o assms(3) by simp_all
  then have "of_int (- (2 ^ 32)) \<le> binary64 (p + ?o)" "binary64 (p + ?o) \<le> of_int (2 ^ 32)"
    by (rule binary64_between_int; simp)+
  then show "\<bar>candidate64 u p\<bar> \<le> 2 ^ 32" unfolding c by simp
qed

lemma snap64_bounds:
  assumes "\<bar>c\<bar> \<le> 2 ^ 32"
  shows "snap64 c = of_int \<lfloor>binary64 (c / 40)\<rfloor> * 40"
    and "c < snap64 c + 40"
proof -
  let ?t = "binary64 (c / 40)"
  let ?k = "\<lfloor>?t\<rfloor>"
  have c40: "of_int (- (2 ^ 32)) \<le> c / 40" "c / 40 \<le> of_int (2 ^ 32)" using assms by simp_all
  then have "of_int (- (2 ^ 32)) \<le> ?t" "?t \<le> of_int (2 ^ 32)"
    by (rule binary64_between_int; simp)+
  then have t: "- 4294967296 \<le> ?t" "?t \<le> 4294967296" by simp_all
  have k: "- 4294967296 \<le> ?k" "?k \<le> 4294967296"
    using t by linarith+
  have "\<bar>?k * 40\<bar> < 9007199254740992" using k by linarith
  then have "\<bar>?k * 40\<bar> < 2 ^ 53" by simp
  then have "binary64 (of_int (?k * 40)) = of_int (?k * 40)" by (rule binary64_of_int)
  then show s: "snap64 c = of_int ?k * 40" by (simp add: snap64_def gridSize_def)
  show "c < snap64 c + 40"
  proof (rule ccontr)
    assume "\<not> c < snap64 c + 40"
    then have a: "of_int (?k + 1) \<le> c / 40" by (simp add: s)
    have "\<bar>?k + 1\<bar> < 9007199254740992" using k by linarith
    then have b: "\<bar>?k + 1\<bar> < 2 ^ 53" by simp
    have d: "\<bar>2 ^ 32 :: int\<bar> < 2 ^ 53" by simp
    have "of_int (?k + 1) \<le> ?t"
      by (rule binary64_between_int(1) [OF a c40(2) b d])
    then show False by linarith
  qed
qed


lemma rne_le_half: "of_int (rne t) \<le> t + 1 / 2"
proof (cases "t - of_int \<lfloor>t\<rfloor> < 1 / 2")
  case True
  then have e: "rne t = \<lfloor>t\<rfloor>" by (rule rne_lower)
  have "of_int \<lfloor>t\<rfloor> \<le> t + 1 / 2" by linarith
  then show ?thesis by (simp only: e)
next
  case False
  have "rne t \<le> \<lfloor>t\<rfloor> + 1" using rne_cases [of t] by auto
  then have "(of_int (rne t) :: real) \<le> of_int (\<lfloor>t\<rfloor> + 1)" by (simp only: of_int_le_iff)
  then show ?thesis using False by (simp add: not_less)
qed

lemma binary64_le_half_quantum:
  assumes "v \<noteq> 0"
  shows "binary64 v \<le> v + 2 powi (exponent64 v - 52) / 2"
proof -
  let ?q = "(2::real) powi (exponent64 v - 52)"
  have q0: "0 < ?q" by simp
  have "of_int (rne (v / ?q)) * ?q \<le> (v / ?q + 1 / 2) * ?q"
    using rne_le_half [of "v / ?q"] q0 by (simp only: mult_right_mono less_imp_le)
  also have "\<dots> = v + ?q / 2" using q0 by (simp add: field_simps)
  finally show ?thesis by (simp only: binary64_eq [OF assms])
qed

lemma binary64_abs_le_pow:
  assumes "0 < x" and "x < 2 ^ 1024"
  shows "binary64 x \<le> 2 powi (exponent64 x + 1)"
proof -
  let ?qx = "(2::real) powi (exponent64 x - 52)"
  have qx0: "0 < ?qx" by simp
  have "x < 2 powi (exponent64 x + 1)" by (rule exponent64_bounds(1) [OF assms])
  also have "\<dots> = 2 ^ 53 * ?qx" by (rule quantum_split1)
  finally have "x / ?qx < 2 ^ 53" using qx0 by (simp add: field_simps)
  then have "x / ?qx \<le> of_int (2 ^ 53)" by simp
  then have "rne (x / ?qx) \<le> rne (of_int (2 ^ 53))" by (rule rne_mono)
  then have "rne (x / ?qx) \<le> 2 ^ 53" by (simp only: rne_of_int)
  then have "(of_int (rne (x / ?qx)) :: real) \<le> of_int (2 ^ 53)" by (simp only: of_int_le_iff)
  then have "of_int (rne (x / ?qx)) * ?qx \<le> 2 ^ 53 * ?qx"
    using qx0 by (simp add: mult_right_mono)
  also have "\<dots> = 2 powi (exponent64 x + 1)" by (rule quantum_split1 [symmetric])
  finally show ?thesis using assms(1) by (simp add: binary64_eq)
qed


lemma exponent64_abs [simp]: "exponent64 \<bar>v\<bar> = exponent64 v"
  by (simp add: exponent64_def)

lemma binary64_abs: "\<bar>binary64 v\<bar> = binary64 \<bar>v\<bar>"
proof (cases "0 \<le> v")
  case True
  then show ?thesis using binary64_nonneg [of v] by simp
next
  case False
  then have "0 \<le> binary64 (- v)" by (intro binary64_nonneg) simp
  then show ?thesis using False by (simp add: binary64_minus)
qed

lemma snap_down_core:
  assumes v1: "1 / 2 \<le> \<bar>v\<bar>" and v2: "\<bar>v\<bar> \<le> 2 ^ 33"
    and lt: "binary64 v < of_int k * 40"
  shows "binary64 (binary64 v / 40) < of_int k"
proof -
  let ?e = "exponent64 v"
  let ?q = "(2::real) powi (?e - 52)"
  let ?c = "binary64 v"
  let ?s = "?c / 40"
  have a0: "0 < \<bar>v\<bar>" and vn: "v \<noteq> 0" using v1 by auto
  have "\<bar>v\<bar> \<le> 2 ^ 33" by (rule v2)
  also have "(2::real) ^ 33 < 2 ^ 1024" by (rule power_strict_increasing) simp_all
  finally have ar: "\<bar>v\<bar> < 2 ^ 1024" .
  note b = exponent64_bounds [OF a0 ar, unfolded exponent64_abs]
  have "(2::real) powi (- 1) \<le> \<bar>v\<bar>" using v1 by (simp add: power_int_minus_divide)
  also have "\<dots> < 2 powi (?e + 1)" by (rule b(1))
  finally have "- 1 < ?e + 1" by (simp only: pow2_less_iff)
  then have e1: "- 1 \<le> ?e" by simp
  then have "2 powi ?e \<le> \<bar>v\<bar>" by (intro b(2)) simp
  also have "\<dots> \<le> 2 powi 33" using v2 by simp
  finally have e2: "?e \<le> 33" by (simp only: pow2_le_iff)
  define j where "j = nat (52 - ?e)"
  have "?e - 52 = - int j" using e2 by (simp add: j_def)
  then have q: "?q = 1 / 2 ^ j" by (simp add: power_int_minus_divide)
  have q0: "0 < ?q" by simp
  define N where "N = rne (v / ?q)"
  have c: "?c = of_int N * ?q" using vn by (simp add: binary64_eq N_def)
  have kq: "of_int k * 40 = of_int (k * 40 * 2 ^ j) * ?q" by (simp add: q)
  with lt have "of_int N * ?q < of_int (k * 40 * 2 ^ j) * ?q" by (simp only: c)
  then have "(of_int N :: real) < of_int (k * 40 * 2 ^ j)" using q0 by (simp only: mult_less_cancel_right_pos)
  then have "N < k * 40 * 2 ^ j" by (simp only: of_int_less_iff)
  then have "N + 1 \<le> k * 40 * 2 ^ j" by simp
  then have "(of_int (N + 1) :: real) \<le> of_int (k * 40 * 2 ^ j)" by (simp only: of_int_le_iff)
  then have "of_int (N + 1) * ?q \<le> of_int (k * 40 * 2 ^ j) * ?q"
    using q0 by (simp only: mult_right_mono less_imp_le)
  moreover have "of_int (N + 1) * ?q = ?c + ?q" by (simp add: c distrib_right)
  ultimately have step: "?c + ?q \<le> of_int k * 40" by (simp only: kq)
  have ca: "\<bar>?c\<bar> \<le> 2 powi (?e + 1)"
    using binary64_abs_le_pow [OF a0 ar] by (simp add: binary64_abs)
  have "binary64 (1 / 2) \<le> binary64 \<bar>v\<bar>"
    using v1 ar by (intro binary64_mono) simp_all
  then have cl: "1 / 2 \<le> \<bar>?c\<bar>" by (simp add: binary64_abs binary64_half)
  then have sn: "?s \<noteq> 0" and s0: "0 < \<bar>?s\<bar>" by auto
  have "\<bar>?s\<bar> = \<bar>?c\<bar> / 40" by simp
  also have "\<dots> \<le> 2 powi (?e + 1) / 40" using ca by simp
  also have "\<dots> < 2 powi (?e + 1) / 32" by (simp add: field_simps)
  also have "\<dots> = 2 powi (?e - 4)"
  proof -
    have "?e + 1 = 5 + (?e - 4)" by simp
    then have "(2::real) powi (?e + 1) = 2 powi (5 + (?e - 4))" by (rule arg_cong)
    also have "\<dots> = 2 powi 5 * 2 powi (?e - 4)" by (rule power_int_add) simp
    finally show ?thesis by simp
  qed
  finally have sb: "\<bar>?s\<bar> < 2 powi (?e - 4)" .
  have "(2::real) powi (?e - 4) \<le> 2 powi 29" using e2 by (simp only: pow2_le_iff)
  also have "\<dots> < 2 ^ 1024" by simp
  finally have sr: "\<bar>?s\<bar> < 2 ^ 1024" using sb by simp
  note bs = exponent64_bounds [OF s0 sr, unfolded exponent64_abs]
  have es: "exponent64 ?s \<le> ?e - 5"
  proof (cases "- 1022 < exponent64 ?s")
    case True
    then have "2 powi (exponent64 ?s) \<le> \<bar>?s\<bar>" by (rule bs(2))
    also have "\<dots> < 2 powi (?e - 4)" by (rule sb)
    finally have "exponent64 ?s < ?e - 4" by (simp only: pow2_less_iff)
    then show ?thesis by simp
  next
    case False
    then show ?thesis using e1 by simp
  qed
  then have "exponent64 ?s - 52 \<le> ?e - 57" by simp
  then have "(2::real) powi (exponent64 ?s - 52) \<le> 2 powi (?e - 57)" by (simp only: pow2_le_iff)
  also have "\<dots> = ?q / 32"
  proof -
    have "?e - 52 = 5 + (?e - 57)" by simp
    then have "?q = 2 powi (5 + (?e - 57))" by (rule arg_cong)
    also have "\<dots> = 2 powi 5 * 2 powi (?e - 57)" by (rule power_int_add) simp
    finally show ?thesis by simp
  qed
  finally have qs: "2 powi (exponent64 ?s - 52) \<le> ?q / 32" .
  have "binary64 ?s \<le> ?s + 2 powi (exponent64 ?s - 52) / 2"
    by (rule binary64_le_half_quantum [OF sn])
  also have "\<dots> \<le> ?s + ?q / 64" using qs by simp
  also have "\<dots> < (?c + ?q) / 40" using q0 by (simp add: field_simps)
  also have "\<dots> \<le> of_int k" using step by simp
  finally show ?thesis .
qed

lemma snap64_down:
  assumes "1 / 2 \<le> \<bar>v\<bar>" and "\<bar>v\<bar> \<le> 2 ^ 33"
  shows "of_int \<lfloor>binary64 (binary64 v / 40)\<rfloor> * 40 \<le> binary64 v"
proof (rule ccontr)
  assume "\<not> of_int \<lfloor>binary64 (binary64 v / 40)\<rfloor> * 40 \<le> binary64 v"
  then have "binary64 v < of_int \<lfloor>binary64 (binary64 v / 40)\<rfloor> * 40" by simp
  then have "binary64 (binary64 v / 40) < of_int \<lfloor>binary64 (binary64 v / 40)\<rfloor>"
    by (rule snap_down_core [OF assms])
  then show False by linarith
qed


lemma binary64_pos:
  assumes "1 / 2 ^ 1021 \<le> y" and "y < 2 ^ 1024"
  shows "0 < binary64 y"
proof -
  let ?e = "exponent64 y"
  let ?q = "(2::real) powi (?e - 52)"
  have y0: "0 < y"
  proof -
    have "(0::real) < 1 / 2 ^ 1021" by simp
    then show ?thesis using assms(1) by linarith
  qed
  note b = exponent64_bounds [OF y0 assms(2)]
  have "(2::real) powi (- 1021) \<le> y" using assms(1) by (simp add: power_int_minus_divide)
  also have "\<dots> < 2 powi (?e + 1)" by (rule b(1))
  finally have "- 1021 < ?e + 1" by (simp only: pow2_less_iff)
  then have "- 1022 < ?e" by simp
  then have ly: "2 powi ?e \<le> y" by (rule b(2))
  have q0: "0 < ?q" by simp
  have "2 ^ 52 * ?q = 2 powi ?e" by (rule quantum_split [symmetric])
  then have "2 ^ 52 * ?q \<le> y" using ly by simp
  then have "of_int (2 ^ 52) \<le> y / ?q" using q0 by (simp add: field_simps)
  then have "rne (of_int (2 ^ 52)) \<le> rne (y / ?q)" by (rule rne_mono)
  then have "2 ^ 52 \<le> rne (y / ?q)" by (simp only: rne_of_int)
  then have "0 < rne (y / ?q)" by simp
  then have "0 < of_int (rne (y / ?q)) * ?q" using q0 by simp
  then show ?thesis using y0 by (simp add: binary64_eq)
qed

lemma candidate_snap_down:
  assumes u: "0 \<le> u" "u < 1" and p: "\<bar>p\<bar> \<le> 2 ^ 31"
    and nc: "0 \<le> candidate64 u p \<or> candidate64 u p \<le> - (1 / 2 ^ 1000)"
  shows "snap64 (candidate64 u p) \<le> candidate64 u p"
proof -
  let ?o = "binary64 (binary64 (binary64 (u - 0.5) * 200) * 2)"
  let ?v = "p + ?o"
  let ?c = "candidate64 u p"
  let ?t = "binary64 (?c / 40)"
  note o = offset64_bounds [OF u]
  have c: "?c = binary64 ?v" by (simp add: candidate64_def)
  have cr: "\<bar>?c\<bar> \<le> 2 ^ 32" by (rule candidate64_bounds(3) [OF u p])
  have s: "snap64 ?c = of_int \<lfloor>?t\<rfloor> * 40" by (rule snap64_bounds(1) [OF cr])
  have v33: "\<bar>?v\<bar> \<le> 2 ^ 33" using o p by simp
  show ?thesis
  proof (cases "1 / 2 \<le> \<bar>?v\<bar>")
    case True
    show ?thesis unfolding s unfolding c by (rule snap64_down [OF True v33])
  next
    case False
    then have vh: "- (1 / 2) \<le> ?v" "?v \<le> 1 / 2" by linarith+
    have hr: "\<bar>- (1 / 2) :: real\<bar> \<le> 2 ^ 60" "\<bar>1 / 2 :: real\<bar> \<le> 2 ^ 60" by simp_all
    have vr: "\<bar>?v\<bar> \<le> 2 ^ 60" using v33 power_increasing [of 33 60 "2::real"] by linarith
    have "binary64 (- (1 / 2)) \<le> binary64 ?v" "binary64 ?v \<le> binary64 (1 / 2)"
      by (intro binary64_mono in_range vh hr vr)+
    then have ch: "- (1 / 2) \<le> ?c" "?c \<le> 1 / 2"
      by (simp_all only: c binary64_minus binary64_half)
    from nc show ?thesis
    proof
      assume c0: "0 \<le> ?c"
      then have "0 \<le> ?c / 40" by simp
      then have t0: "0 \<le> ?t" by (rule binary64_nonneg)
      have "?c / 40 \<le> 1 / 2" using ch(2) by simp
      then have "?t \<le> binary64 (1 / 2)"
        using c0 by (intro binary64_mono in_range) simp_all
      then have "?t \<le> 1 / 2" by (simp only: binary64_half)
      with t0 have "\<lfloor>?t\<rfloor> = 0" by linarith
      then show ?thesis using c0 by (simp add: s)
    next
      assume cn: "?c \<le> - (1 / 2 ^ 1000)"
      have "(1::real) / 2 ^ 1021 \<le> 1 / 2 ^ 1006"
        by (intro divide_left_mono power_increasing) simp_all
      moreover have "(1::real) / 2 ^ 1006 < 2 ^ 1024"
      proof -
        have "(1::real) / 2 ^ 1006 \<le> 1" by (simp add: divide_le_eq_1)
        also have "(1::real) < 2 ^ 1024" by (rule one_less_power) simp_all
        finally show ?thesis .
      qed
      ultimately have pos: "0 < binary64 (1 / 2 ^ 1006)" by (rule binary64_pos)
      have "?c / 40 \<le> - (1 / 2 ^ 1000) / 40" using cn by simp
      also have "\<dots> \<le> - (1 / 2 ^ 1006)"
      proof -
        have "(2::real) ^ 1006 = 2 ^ 1000 * 2 ^ 6" by (simp only: power_add [symmetric]) simp
        then show ?thesis by (simp add: field_simps)
      qed
      finally have "?c / 40 \<le> - (1 / 2 ^ 1006)" .
      moreover have "\<bar>?c / 40\<bar> \<le> 2 ^ 60" using ch by simp
      moreover have "\<bar>- (1 / 2 ^ 1006) :: real\<bar> \<le> 2 ^ 60"
      proof -
        have "(1::real) / 2 ^ 1006 \<le> 1" by (simp add: divide_le_eq_1)
        also have "(1::real) \<le> 2 ^ 60" by (rule one_le_power) simp
        finally show ?thesis by simp
      qed
      ultimately have "?t \<le> binary64 (- (1 / 2 ^ 1006))"
        by (intro binary64_mono in_range)
      then have tn: "?t < 0" using pos by (simp add: binary64_minus)
      have "of_int (- 1) \<le> ?c / 40" "?c / 40 \<le> of_int 0" using ch(1) cn
        by (simp_all add: order_trans [OF _ ch(1)])
      then have "of_int (- 1) \<le> ?t"
        by (rule binary64_between_int; simp)
      with tn have "\<lfloor>?t\<rfloor> = - 1" by linarith
      then show ?thesis using ch(1) by (simp add: s)
    qed
  qed
qed

section \<open>The claims\<close>



lemma squares_spawn64:
  assumes "isHovering s" and "r_chance d < binary64 0.4"
  shows "squares (spawn64 d s) =
      (if dist64 (snap64 (candidate64 (r_offsetX d) (fst (mousePos s))))
            (snap64 (candidate64 (r_offsetY d) (snd (mousePos s))))
            (fst (mousePos s)) (snd (mousePos s)) < 200
       then squares s @
         [\<lparr>sq_x = snap64 (candidate64 (r_offsetX d) (fst (mousePos s))),
           sq_y = snap64 (candidate64 (r_offsetY d) (snd (mousePos s))),
           opacity = binary64 (binary64 (r_opacity d * 0.5) + binary64 0.2), life = 1,
           decay = binary64 (binary64 (r_decay d * binary64 0.03) + binary64 0.01)\<rparr>]
       else squares s)"
  using assms by (simp add: spawn64_def candidate64_def snap64_def dist64_def Let_def)

lemma sqrt_40000: "sqrt 40000 = 200"
proof -
  have "sqrt ((200::real)\<^sup>2) = \<bar>200\<bar>" by (rule real_sqrt_abs)
  then show ?thesis by simp
qed

text \<open>
  C2, as the code has it. A spawn attempt (hovering, and the chance drawn below \<open>0.4\<close>)
  computes in binary64. On each axis the candidate \<open>c\<close> is the pointer coordinate \<open>x\<close>
  moved by \<open>(u - 0.5) * 200 * 2\<close> for a draw \<open>u\<close>, and it is snapped to the computed
  \<open>floor (c / 40) * 40\<close>. The new square is pushed at the snapped point exactly when the
  distance from the centre of its cell to the pointer, as computed, is below \<open>200\<close>;
  otherwise the collection is as before, and nothing else of the state changes either way.
  For draws in \<open>[0, 1)\<close> and a pointer within \<open>2 ^ 31\<close> of the origin, the candidate
  lies between the rounded \<open>x - 200\<close> and the rounded \<open>x + 200\<close>, the snapped coordinate
  \<open>g\<close> is an integer multiple of \<open>40\<close> with \<open>c < g + 40\<close>, and \<open>g \<le> c\<close> unless \<open>c\<close> is
  negative and within \<open>2 ^ -1000\<close> of \<open>0\<close>.
\<close>

theorem spawn64_attempt:
  assumes "isHovering s" and "r_chance d < binary64 0.4"
  shows "(let x = fst (mousePos s); y = snd (mousePos s);
              cx = candidate64 (r_offsetX d) x; cy = candidate64 (r_offsetY d) y;
              gx = snap64 cx; gy = snap64 cy;
              near = (dist64 gx gy x y < 200)
          in squares (spawn64 d s) =
               (if near then squares s @
                  [\<lparr>sq_x = gx, sq_y = gy,
                    opacity = binary64 (binary64 (r_opacity d * 0.5) + binary64 0.2), life = 1,
                    decay = binary64 (binary64 (r_decay d * binary64 0.03) + binary64 0.01)\<rparr>]
                else squares s) \<and>
             (squares (spawn64 d s) \<noteq> squares s) = near \<and>
             spawn64 d s = s\<lparr>squares := squares (spawn64 d s)\<rparr> \<and>
             (valid_draws d \<and> \<bar>x\<bar> \<le> 2 ^ 31 \<and> \<bar>y\<bar> \<le> 2 ^ 31 \<longrightarrow>
                binary64 (x - 200) \<le> cx \<and> cx \<le> binary64 (x + 200) \<and>
                binary64 (y - 200) \<le> cy \<and> cy \<le> binary64 (y + 200) \<and>
                gx = of_int \<lfloor>binary64 (cx / 40)\<rfloor> * 40 \<and>
                gy = of_int \<lfloor>binary64 (cy / 40)\<rfloor> * 40 \<and>
                cx < gx + 40 \<and> cy < gy + 40 \<and>
                (0 \<le> cx \<or> cx \<le> - (1 / 2 ^ 1000) \<longrightarrow> gx \<le> cx) \<and>
                (0 \<le> cy \<or> cy \<le> - (1 / 2 ^ 1000) \<longrightarrow> gy \<le> cy)))"
proof -
  define x where "x = fst (mousePos s)"
  define y where "y = snd (mousePos s)"
  define cx where "cx = candidate64 (r_offsetX d) x"
  define cy where "cy = candidate64 (r_offsetY d) y"
  define gx where "gx = snap64 cx"
  define gy where "gy = snap64 cy"
  define near where "near = (dist64 gx gy x y < 200)"
  define q where "q = \<lparr>sq_x = gx, sq_y = gy,
      opacity = binary64 (binary64 (r_opacity d * 0.5) + binary64 0.2), life = 1,
      decay = binary64 (binary64 (r_decay d * binary64 0.03) + binary64 0.01)\<rparr>"
  have sq: "squares (spawn64 d s) = (if near then squares s @ [q] else squares s)"
    using squares_spawn64 [OF assms]
    by (simp add: near_def q_def gx_def gy_def cx_def cy_def x_def y_def)
  have ne: "(squares (spawn64 d s) \<noteq> squares s) = near" by (simp add: sq)
  have fr: "spawn64 d s = s\<lparr>squares := squares (spawn64 d s)\<rparr>"
    by (simp add: spawn64_def Let_def)
  have bd: "valid_draws d \<and> \<bar>x\<bar> \<le> 2 ^ 31 \<and> \<bar>y\<bar> \<le> 2 ^ 31 \<longrightarrow>
                binary64 (x - 200) \<le> cx \<and> cx \<le> binary64 (x + 200) \<and>
                binary64 (y - 200) \<le> cy \<and> cy \<le> binary64 (y + 200) \<and>
                gx = of_int \<lfloor>binary64 (cx / 40)\<rfloor> * 40 \<and>
                gy = of_int \<lfloor>binary64 (cy / 40)\<rfloor> * 40 \<and>
                cx < gx + 40 \<and> cy < gy + 40 \<and>
                (0 \<le> cx \<or> cx \<le> - (1 / 2 ^ 1000) \<longrightarrow> gx \<le> cx) \<and>
                (0 \<le> cy \<or> cy \<le> - (1 / 2 ^ 1000) \<longrightarrow> gy \<le> cy)"
  proof (intro impI, elim conjE)
    assume v: "valid_draws d" and px: "\<bar>x\<bar> \<le> 2 ^ 31" and py: "\<bar>y\<bar> \<le> 2 ^ 31"
    have ux: "0 \<le> r_offsetX d" "r_offsetX d < 1" and uy: "0 \<le> r_offsetY d" "r_offsetY d < 1"
      using v by (simp_all add: valid_draws_def unit_draw_def)
    note bx = candidate64_bounds [OF ux px, folded cx_def]
    note cb = candidate64_bounds [OF uy py, folded cy_def]
    note sx = snap64_bounds [OF bx(3), folded gx_def]
    note sy = snap64_bounds [OF cb(3), folded gy_def]
    have dx: "0 \<le> cx \<or> cx \<le> - (1 / 2 ^ 1000) \<longrightarrow> gx \<le> cx"
      unfolding gx_def cx_def by (intro impI candidate_snap_down ux px)
    have dy: "0 \<le> cy \<or> cy \<le> - (1 / 2 ^ 1000) \<longrightarrow> gy \<le> cy"
      unfolding gy_def cy_def by (intro impI candidate_snap_down uy py)
    show "binary64 (x - 200) \<le> cx \<and> cx \<le> binary64 (x + 200) \<and>
                binary64 (y - 200) \<le> cy \<and> cy \<le> binary64 (y + 200) \<and>
                gx = of_int \<lfloor>binary64 (cx / 40)\<rfloor> * 40 \<and>
                gy = of_int \<lfloor>binary64 (cy / 40)\<rfloor> * 40 \<and>
                cx < gx + 40 \<and> cy < gy + 40 \<and>
                (0 \<le> cx \<or> cx \<le> - (1 / 2 ^ 1000) \<longrightarrow> gx \<le> cx) \<and>
                (0 \<le> cy \<or> cy \<le> - (1 / 2 ^ 1000) \<longrightarrow> gy \<le> cy)"
      by (intro conjI bx(1,2) cb(1,2) sx sy dx dy)
  qed
  show ?thesis
    using sq ne fr bd
    unfolding Let_def x_def [symmetric] y_def [symmetric] cx_def [symmetric] cy_def [symmetric]
      gx_def [symmetric] gy_def [symmetric] near_def [symmetric] q_def [symmetric]
    by (intro conjI)
qed

theorem spawn64_attempt_witness:
  "isHovering (run [MouseEnter, MouseMove (Some \<lparr>rect_left = 0, rect_top = 0, offsetWidth = 800, offsetHeight = 200\<rparr>) 100 100]
      (mount 300 150 None \<lparr>r_chance = 1 / 4, r_offsetX = 1 / 2, r_offsetY = 1 / 2, r_opacity = 1 / 2, r_decay = 1 / 2\<rparr>)) \<and>
   r_chance \<lparr>r_chance = 1 / 4, r_offsetX = 1 / 2, r_offsetY = 1 / 2, r_opacity = 1 / 2, r_decay = 1 / 2\<rparr> < binary64 0.4 \<and>
   valid_draws \<lparr>r_chance = 1 / 4, r_offsetX = 1 / 2, r_offsetY = 1 / 2, r_opacity = 1 / 2, r_decay = 1 / 2\<rparr> \<and>
   mousePos (run [MouseEnter, MouseMove (Some \<lparr>rect_left = 0, rect_top = 0, offsetWidth = 800, offsetHeight = 200\<rparr>) 100 100]
      (mount 300 150 None \<lparr>r_chance = 1 / 4, r_offsetX = 1 / 2, r_offsetY = 1 / 2, r_opacity = 1 / 2, r_decay = 1 / 2\<rparr>)) = (100, 100) \<and>
   candidate64 (1 / 2) 100 = 100 \<and>
   snap64 100 = 80 \<and>
   dist64 80 80 100 100 = 0 \<and>
   squares (spawn64 \<lparr>r_chance = 1 / 4, r_offsetX = 1 / 2, r_offsetY = 1 / 2, r_opacity = 1 / 2, r_decay = 1 / 2\<rparr> (run [MouseEnter, MouseMove (Some \<lparr>rect_left = 0, rect_top = 0, offsetWidth = 800, offsetHeight = 200\<rparr>) 100 100]
      (mount 300 150 None \<lparr>r_chance = 1 / 4, r_offsetX = 1 / 2, r_offsetY = 1 / 2, r_opacity = 1 / 2, r_decay = 1 / 2\<rparr>))) =
     [\<lparr>sq_x = 80, sq_y = 80, opacity = 8106479329266893 / 18014398509481984, life = 1, decay = 3602879701896397 / 144115188075855872\<rparr>] \<and>
   binary64 (100 - 200) \<le> candidate64 (1 / 2) 100 \<and>
   candidate64 (1 / 2) 100 \<le> binary64 (100 + 200) \<and>
   snap64 (candidate64 (1 / 2) 100) \<le> candidate64 (1 / 2) 100 \<and>
   candidate64 (1 / 2) 100 < snap64 (candidate64 (1 / 2) 100) + 40"
proof -
  let ?d = "\<lparr>r_chance = 1 / 4, r_offsetX = 1 / 2, r_offsetY = 1 / 2, r_opacity = 1 / 2, r_decay = 1 / 2\<rparr>"
  let ?s = "(run [MouseEnter, MouseMove (Some \<lparr>rect_left = 0, rect_top = 0, offsetWidth = 800, offsetHeight = 200\<rparr>) 100 100]
      (mount 300 150 None \<lparr>r_chance = 1 / 4, r_offsetX = 1 / 2, r_offsetY = 1 / 2, r_opacity = 1 / 2, r_decay = 1 / 2\<rparr>))"
  have h: "isHovering ?s" by (simp add: handleMouseMove_def handleMouseEnter_def mount_eq resizeCanvas_def initial_def Let_def)
  have c: "r_chance ?d < binary64 0.4" by (simp add: binary64_def rne_def eval_nat_numeral Let_def power_int_def)
  have v: "valid_draws ?d" by (simp add: valid_draws_simp)
  have mp: "mousePos ?s = (100, 100)" by (simp add: handleMouseMove_def handleMouseEnter_def mount_eq resizeCanvas_def initial_def Let_def)
  have m: "fst (mousePos ?s) = 100" "snd (mousePos ?s) = 100" by (simp_all only: mp fst_conv snd_conv)
  have e: "squares ?s = []" by (simp add: handleMouseMove_def handleMouseEnter_def mount_eq resizeCanvas_def initial_def Let_def)
  have k: "candidate64 (1 / 2) 100 = 100"
    by (simp add: candidate64_def binary64_def rne_def eval_nat_numeral Let_def power_int_def)
  have g: "snap64 100 = 80"
    by (simp add: snap64_def gridSize_def binary64_def rne_def eval_nat_numeral Let_def power_int_def)
  have n: "dist64 80 80 100 100 = 0"
    by (simp add: dist64_def gridSize_def binary64_def rne_def eval_nat_numeral Let_def power_int_def)
  have o: "binary64 (binary64 (1 / 2 * 0.5) + binary64 0.2) = 8106479329266893 / 18014398509481984"
    "binary64 (binary64 (1 / 2 * binary64 0.03) + binary64 0.01) = 3602879701896397 / 144115188075855872"
    by (simp_all add: binary64_def rne_def eval_nat_numeral Let_def power_int_def)
  note t = spawn64_attempt [OF h c, unfolded Let_def m Draws.select_convs]
  have r: "\<bar>100::real\<bar> \<le> 2 ^ 31" by simp
  have "squares (spawn64 ?d ?s) =
      (if dist64 (snap64 (candidate64 (1 / 2) 100)) (snap64 (candidate64 (1 / 2) 100)) 100 100 < 200
       then squares ?s @
         [\<lparr>sq_x = snap64 (candidate64 (1 / 2) 100), sq_y = snap64 (candidate64 (1 / 2) 100),
           opacity = binary64 (binary64 (1 / 2 * 0.5) + binary64 0.2), life = 1,
           decay = binary64 (binary64 (1 / 2 * binary64 0.03) + binary64 0.01)\<rparr>]
       else squares ?s)"
    using t by (rule conjunct1)
  then have a: "squares (spawn64 ?d ?s) = [\<lparr>sq_x = 80, sq_y = 80, opacity = 8106479329266893 / 18014398509481984, life = 1, decay = 3602879701896397 / 144115188075855872\<rparr>]"
    by (simp only: k g n o e) simp
  have b: "binary64 (100 - 200) \<le> candidate64 (1 / 2) 100"
    "candidate64 (1 / 2) 100 \<le> binary64 (100 + 200)"
    "candidate64 (1 / 2) 100 < snap64 (candidate64 (1 / 2) 100) + 40"
    using t v r by blast+
  have "0 \<le> candidate64 (1 / 2) 100" by (simp add: k)
  then have f: "snap64 (candidate64 (1 / 2) 100) \<le> candidate64 (1 / 2) 100"
    using t v r by blast
  show ?thesis by (intro conjI h c v mp k g n a b(1,2) f b(3))
qed

text \<open>
  The claim speaks of the exact distance, of a point inside the square, and of snapping
  down; the computed values differ from each at some inputs. With the pointer at
  \<open>(20 + 2 ^ -48, 20)\<close> and the draws \<open>123 / 128\<close> and \<open>1 / 2\<close> the cell is at
  \<open>(200, 0)\<close>; its centre is at the exact distance \<open>200 - 2 ^ -48\<close> from the pointer, the
  subtraction rounds to \<open>200\<close>, and nothing is pushed. With the draw \<open>0\<close> the candidate
  is \<open>-180\<close>, below \<open>x - 200\<close>. A candidate of \<open>-2 ^ -1074\<close>, the least a binary64 value
  can be below \<open>0\<close>, divided by \<open>40\<close> rounds to \<open>0\<close>, and is snapped to \<open>0\<close>, above it.
\<close>

theorem spawn_distance_counterexample:
  "isHovering (run [MouseEnter, MouseMove (Some \<lparr>rect_left = 0, rect_top = 0, offsetWidth = 800, offsetHeight = 200\<rparr>) (20 + 1 / 2 ^ 48) 20]
      (mount 300 150 None \<lparr>r_chance = 1 / 4, r_offsetX = 123 / 128, r_offsetY = 1 / 2, r_opacity = 1 / 2, r_decay = 1 / 2\<rparr>)) \<and>
   mousePos (run [MouseEnter, MouseMove (Some \<lparr>rect_left = 0, rect_top = 0, offsetWidth = 800, offsetHeight = 200\<rparr>) (20 + 1 / 2 ^ 48) 20]
      (mount 300 150 None \<lparr>r_chance = 1 / 4, r_offsetX = 123 / 128, r_offsetY = 1 / 2, r_opacity = 1 / 2, r_decay = 1 / 2\<rparr>)) = (20 + 1 / 2 ^ 48, 20) \<and>
   binary64 (20 + 1 / 2 ^ 48) = 20 + 1 / 2 ^ 48 \<and>
   binary64 (123 / 128) = 123 / 128 \<and>
   r_chance \<lparr>r_chance = 1 / 4, r_offsetX = 123 / 128, r_offsetY = 1 / 2, r_opacity = 1 / 2, r_decay = 1 / 2\<rparr> < binary64 0.4 \<and>
   snap64 (candidate64 (123 / 128) (20 + 1 / 2 ^ 48)) = 200 \<and>
   snap64 (candidate64 (1 / 2) 20) = 0 \<and>
   sqrt ((200 + 20 - (20 + 1 / 2 ^ 48))\<^sup>2 + (0 + 20 - 20)\<^sup>2) < 200 \<and>
   dist64 200 0 (20 + 1 / 2 ^ 48) 20 = 200 \<and>
   squares (spawn64 \<lparr>r_chance = 1 / 4, r_offsetX = 123 / 128, r_offsetY = 1 / 2, r_opacity = 1 / 2, r_decay = 1 / 2\<rparr> (run [MouseEnter, MouseMove (Some \<lparr>rect_left = 0, rect_top = 0, offsetWidth = 800, offsetHeight = 200\<rparr>) (20 + 1 / 2 ^ 48) 20]
      (mount 300 150 None \<lparr>r_chance = 1 / 4, r_offsetX = 123 / 128, r_offsetY = 1 / 2, r_opacity = 1 / 2, r_decay = 1 / 2\<rparr>))) =
     squares (run [MouseEnter, MouseMove (Some \<lparr>rect_left = 0, rect_top = 0, offsetWidth = 800, offsetHeight = 200\<rparr>) (20 + 1 / 2 ^ 48) 20]
      (mount 300 150 None \<lparr>r_chance = 1 / 4, r_offsetX = 123 / 128, r_offsetY = 1 / 2, r_opacity = 1 / 2, r_decay = 1 / 2\<rparr>)) \<and>
   candidate64 0 (20 + 1 / 2 ^ 48) = - 180 \<and>
   - 180 < 20 + 1 / 2 ^ 48 - (200::real) \<and>
   candidate64 (1 / 2) (- (1 / 2 ^ 1074)) = - (1 / 2 ^ 1074) \<and>
   snap64 (- (1 / 2 ^ 1074)) = 0 \<and>
   - (1 / 2 ^ 1074) < (0::real)"
proof -
  let ?d = "\<lparr>r_chance = 1 / 4, r_offsetX = 123 / 128, r_offsetY = 1 / 2, r_opacity = 1 / 2, r_decay = 1 / 2\<rparr>"
  let ?s = "(run [MouseEnter, MouseMove (Some \<lparr>rect_left = 0, rect_top = 0, offsetWidth = 800, offsetHeight = 200\<rparr>) (20 + 1 / 2 ^ 48) 20]
      (mount 300 150 None \<lparr>r_chance = 1 / 4, r_offsetX = 123 / 128, r_offsetY = 1 / 2, r_opacity = 1 / 2, r_decay = 1 / 2\<rparr>))"
  have h: "isHovering ?s" by (simp add: handleMouseMove_def handleMouseEnter_def mount_eq resizeCanvas_def initial_def Let_def)
  have m: "mousePos ?s = (20 + 1 / 2 ^ 48, 20)" by (simp add: handleMouseMove_def handleMouseEnter_def mount_eq resizeCanvas_def initial_def Let_def)
  have r: "binary64 (20 + 1 / 2 ^ 48) = 20 + 1 / 2 ^ 48" "binary64 (123 / 128) = 123 / 128"
    by (simp_all add: binary64_def rne_def eval_nat_numeral Let_def power_int_def)
  have c: "r_chance ?d < binary64 0.4" by (simp add: binary64_def rne_def eval_nat_numeral Let_def power_int_def)
  have gx: "snap64 (candidate64 (123 / 128) (20 + 1 / 2 ^ 48)) = 200"
    by (simp add: snap64_def candidate64_def gridSize_def binary64_def rne_def eval_nat_numeral Let_def power_int_def)
  have gy: "snap64 (candidate64 (1 / 2) 20) = 0"
    by (simp add: snap64_def candidate64_def gridSize_def binary64_def rne_def eval_nat_numeral Let_def power_int_def)
  have e: "sqrt ((200 + 20 - (20 + 1 / 2 ^ 48))\<^sup>2 + (0 + 20 - 20)\<^sup>2) < (200::real)"
    by (simp add: dist_less_iff)
  have n: "dist64 200 0 (20 + 1 / 2 ^ 48) 20 = 200"
    by (simp add: dist64_def gridSize_def sqrt_40000 binary64_def rne_def eval_nat_numeral Let_def power_int_def)
  have f: "fst (mousePos ?s) = 20 + 1 / 2 ^ 48" "snd (mousePos ?s) = 20"
    by (simp_all only: m fst_conv snd_conv)
  have a: "squares (spawn64 ?d ?s) = squares ?s"
    by (simp only: squares_spawn64 [OF h c] f Draws.select_convs gx gy n) simp
  have b: "candidate64 0 (20 + 1 / 2 ^ 48) = - 180" "- 180 < 20 + 1 / 2 ^ 48 - (200::real)"
    by (simp_all add: candidate64_def binary64_def rne_def eval_nat_numeral Let_def power_int_def)
  have u: "candidate64 (1 / 2) (- (1 / 2 ^ 1074)) = - (1 / 2 ^ 1074)"
    by (simp add: candidate64_def binary64_def rne_def eval_nat_numeral Let_def power_int_def)
  have w: "snap64 (- (1 / 2 ^ 1074)) = 0"
    by (simp add: snap64_def gridSize_def binary64_def rne_def eval_nat_numeral Let_def power_int_def)
  have z: "- (1 / 2 ^ 1074) < (0::real)" by simp
  show ?thesis by (intro conjI h m r c gx gy e n a b u w z)
qed


lemma spawn_idle: "\<not> isHovering s \<Longrightarrow> spawn d s = s"
  by (simp add: spawn_eq accepts_def)




lemma pushed_eq: "pushed d s = (if accepts d s then 1 else 0)"
  by (simp add: pushed_def squares_spawn)

lemma render_idle:
  "\<not> isHovering s \<Longrightarrow>
   render d s = (s\<lparr>squares := survivors (squares s)\<rparr>, map paint (rev (survivors (squares s))))"
  by (simp add: render_eq spawn_idle)

lemma length_survivors: "length (survivors sqs) \<le> length sqs"
  unfolding survivors_def
  by (rule order_trans [OF length_filter_le]) simp

lemma isHovering_render [simp]: "isHovering (fst (render d s)) = isHovering s"
  by (simp add: render_eq spawn_eq)

lemma idle_step:
  "\<not> isHovering s \<Longrightarrow> e \<noteq> MouseEnter \<Longrightarrow> \<not> isHovering (step e s)"
  by (cases e)
    (simp_all add: handleMouseMove_def handleMouseLeave_def resizeCanvas_def Let_def
      split: option.splits)

lemma idle_step_length:
  "\<not> isHovering s \<Longrightarrow> length (squares (step e s)) \<le> length (squares s)"
  by (cases e) (simp_all add: render_idle length_survivors)

lemma idle_run:
  "\<not> isHovering s \<Longrightarrow> MouseEnter \<notin> set es \<Longrightarrow>
   spawn_count es s = 0 \<and> \<not> isHovering (run es s) \<and>
   length (squares (run es s)) \<le> length (squares s)"
proof (induction es arbitrary: s)
  case Nil
  then show ?case by simp
next
  case (Cons e es)
  from Cons.prems have e: "e \<noteq> MouseEnter" and es: "MouseEnter \<notin> set es" by auto
  have h: "\<not> isHovering (step e s)" using Cons.prems(1) e by (rule idle_step)
  note ih = Cons.IH [OF h es]
  have len: "length (squares (run es (step e s))) \<le> length (squares s)"
    using ih idle_step_length [OF Cons.prems(1), of e] by linarith
  have cnt: "spawn_count (e # es) s = spawn_count es (step e s)"
    using Cons.prems(1) by (cases e) (simp_all add: pushed_def spawn_idle)
  show ?case using ih len cnt by simp
qed

lemma idle_frames_empty:
  "\<not> isHovering s \<Longrightarrow> squares s = [] \<Longrightarrow> squares (run (map Frame ds) s) = []"
proof (induction ds arbitrary: s)
  case Nil
  then show ?case by simp
next
  case (Cons d ds)
  have "\<not> isHovering (step (Frame d) s)" using Cons.prems(1) by simp
  moreover have "squares (step (Frame d) s) = []"
    using Cons.prems by (simp add: render_idle)
  ultimately show ?case using Cons.IH by simp
qed

lemma mount_idle: "\<not> isHovering (mount w h c d)"
  by (simp add: mount_eq resizeCanvas_def initial_def split: option.splits)

text \<open>
  C4. A frame run while the hovering flag is false pushes nothing: the spawn half leaves
  the state as it is, and the collection after the frame is the survivors of the one
  before, never longer. After mount the collection is empty and the flag is false, and
  the collection is still empty after any number of frames. \<^verbatim>\<open>handleMouseLeave\<close> sets
  the flag to false and the pointer to the sentinel, and in any run of events after it
  that holds no \<^verbatim>\<open>mouseenter\<close> the frames push no square at all.
\<close>

theorem no_spawn_while_not_hovering:
  "(\<not> isHovering s \<longrightarrow>
      spawn d s = s \<and> pushed d s = 0 \<and>
      squares (fst (render d s)) = survivors (squares s) \<and>
      length (squares (fst (render d s))) \<le> length (squares s)) \<and>
   squares (mount w h c d0) = [] \<and> \<not> isHovering (mount w h c d0) \<and>
   squares (run (map Frame ds) (mount w h c d0)) = [] \<and>
   \<not> isHovering (handleMouseLeave t) \<and> mousePos (handleMouseLeave t) = sentinel \<and>
   (MouseEnter \<notin> set es \<longrightarrow>
      spawn_count es (handleMouseLeave t) = 0 \<and>
      \<not> isHovering (run es (handleMouseLeave t)) \<and>
      length (squares (run es (handleMouseLeave t))) \<le> length (squares t))"
proof -
  have a: "\<not> isHovering s \<longrightarrow>
      spawn d s = s \<and> pushed d s = 0 \<and>
      squares (fst (render d s)) = survivors (squares s) \<and>
      length (squares (fst (render d s))) \<le> length (squares s)"
    by (simp add: spawn_idle pushed_def render_idle length_survivors)
  have b: "squares (run (map Frame ds) (mount w h c d0)) = []"
    using mount_idle mount_squares by (rule idle_frames_empty)
  have l: "\<not> isHovering (handleMouseLeave t)" "mousePos (handleMouseLeave t) = sentinel"
    by (simp_all add: handleMouseLeave_def sentinel_def)
  have c: "MouseEnter \<notin> set es \<longrightarrow>
      spawn_count es (handleMouseLeave t) = 0 \<and>
      \<not> isHovering (run es (handleMouseLeave t)) \<and>
      length (squares (run es (handleMouseLeave t))) \<le> length (squares t)"
    using idle_run [OF l(1), of es] by simp
  show ?thesis using a b l c mount_idle mount_squares by blast
qed

theorem no_spawn_while_not_hovering_witness:
  "\<not> isHovering (step MouseLeave (run [MouseEnter, MouseMove (Some \<lparr>rect_left = 0, rect_top = 0, offsetWidth = 800, offsetHeight = 200\<rparr>) 100 100, Frame \<lparr>r_chance = 0.1, r_offsetX = 0.5, r_offsetY = 0.5, r_opacity = 0.5, r_decay = 0.5\<rparr>]
      (mount 300 150 None \<lparr>r_chance = 0.1, r_offsetX = 0.5, r_offsetY = 0.5, r_opacity = 0.5, r_decay = 0.5\<rparr>))) \<and>
   squares (step MouseLeave (run [MouseEnter, MouseMove (Some \<lparr>rect_left = 0, rect_top = 0, offsetWidth = 800, offsetHeight = 200\<rparr>) 100 100, Frame \<lparr>r_chance = 0.1, r_offsetX = 0.5, r_offsetY = 0.5, r_opacity = 0.5, r_decay = 0.5\<rparr>]
      (mount 300 150 None \<lparr>r_chance = 0.1, r_offsetX = 0.5, r_offsetY = 0.5, r_opacity = 0.5, r_decay = 0.5\<rparr>))) = [\<lparr>sq_x = 80, sq_y = 80, opacity = 0.45, life = 0.975, decay = 0.025\<rparr>] \<and>
   spawn \<lparr>r_chance = 0.1, r_offsetX = 0.5, r_offsetY = 0.5, r_opacity = 0.5, r_decay = 0.5\<rparr> (step MouseLeave (run [MouseEnter, MouseMove (Some \<lparr>rect_left = 0, rect_top = 0, offsetWidth = 800, offsetHeight = 200\<rparr>) 100 100, Frame \<lparr>r_chance = 0.1, r_offsetX = 0.5, r_offsetY = 0.5, r_opacity = 0.5, r_decay = 0.5\<rparr>]
      (mount 300 150 None \<lparr>r_chance = 0.1, r_offsetX = 0.5, r_offsetY = 0.5, r_opacity = 0.5, r_decay = 0.5\<rparr>))) = (step MouseLeave (run [MouseEnter, MouseMove (Some \<lparr>rect_left = 0, rect_top = 0, offsetWidth = 800, offsetHeight = 200\<rparr>) 100 100, Frame \<lparr>r_chance = 0.1, r_offsetX = 0.5, r_offsetY = 0.5, r_opacity = 0.5, r_decay = 0.5\<rparr>]
      (mount 300 150 None \<lparr>r_chance = 0.1, r_offsetX = 0.5, r_offsetY = 0.5, r_opacity = 0.5, r_decay = 0.5\<rparr>))) \<and>
   squares (fst (render \<lparr>r_chance = 0.1, r_offsetX = 0.5, r_offsetY = 0.5, r_opacity = 0.5, r_decay = 0.5\<rparr> (step MouseLeave (run [MouseEnter, MouseMove (Some \<lparr>rect_left = 0, rect_top = 0, offsetWidth = 800, offsetHeight = 200\<rparr>) 100 100, Frame \<lparr>r_chance = 0.1, r_offsetX = 0.5, r_offsetY = 0.5, r_opacity = 0.5, r_decay = 0.5\<rparr>]
      (mount 300 150 None \<lparr>r_chance = 0.1, r_offsetX = 0.5, r_offsetY = 0.5, r_opacity = 0.5, r_decay = 0.5\<rparr>))))) = [\<lparr>sq_x = 80, sq_y = 80, opacity = 0.45, life = 0.95, decay = 0.025\<rparr>] \<and>
   squares (run (map Frame (replicate 10 \<lparr>r_chance = 0.1, r_offsetX = 0.5, r_offsetY = 0.5, r_opacity = 0.5, r_decay = 0.5\<rparr>)) (mount 300 150 None \<lparr>r_chance = 0.1, r_offsetX = 0.5, r_offsetY = 0.5, r_opacity = 0.5, r_decay = 0.5\<rparr>)) = [] \<and>
   MouseEnter \<notin> set [Frame \<lparr>r_chance = 0.1, r_offsetX = 0.5, r_offsetY = 0.5, r_opacity = 0.5, r_decay = 0.5\<rparr>, MouseMove (Some \<lparr>rect_left = 0, rect_top = 0, offsetWidth = 800, offsetHeight = 200\<rparr>) 140 60, Frame \<lparr>r_chance = 0.1, r_offsetX = 0.5, r_offsetY = 0.5, r_opacity = 0.5, r_decay = 0.5\<rparr>, Resize (Some \<lparr>rect_left = 0, rect_top = 0, offsetWidth = 800, offsetHeight = 200\<rparr>)] \<and>
   spawn_count [Frame \<lparr>r_chance = 0.1, r_offsetX = 0.5, r_offsetY = 0.5, r_opacity = 0.5, r_decay = 0.5\<rparr>, MouseMove (Some \<lparr>rect_left = 0, rect_top = 0, offsetWidth = 800, offsetHeight = 200\<rparr>) 140 60, Frame \<lparr>r_chance = 0.1, r_offsetX = 0.5, r_offsetY = 0.5, r_opacity = 0.5, r_decay = 0.5\<rparr>, Resize (Some \<lparr>rect_left = 0, rect_top = 0, offsetWidth = 800, offsetHeight = 200\<rparr>)] (handleMouseLeave (run [MouseEnter, MouseMove (Some \<lparr>rect_left = 0, rect_top = 0, offsetWidth = 800, offsetHeight = 200\<rparr>) 100 100, Frame \<lparr>r_chance = 0.1, r_offsetX = 0.5, r_offsetY = 0.5, r_opacity = 0.5, r_decay = 0.5\<rparr>]
      (mount 300 150 None \<lparr>r_chance = 0.1, r_offsetX = 0.5, r_offsetY = 0.5, r_opacity = 0.5, r_decay = 0.5\<rparr>))) = 0"
proof -
  let ?d = "\<lparr>r_chance = 0.1, r_offsetX = 0.5, r_offsetY = 0.5, r_opacity = 0.5, r_decay = 0.5\<rparr>"
  let ?w = "(run [MouseEnter, MouseMove (Some \<lparr>rect_left = 0, rect_top = 0, offsetWidth = 800, offsetHeight = 200\<rparr>) 100 100, Frame \<lparr>r_chance = 0.1, r_offsetX = 0.5, r_offsetY = 0.5, r_opacity = 0.5, r_decay = 0.5\<rparr>]
      (mount 300 150 None \<lparr>r_chance = 0.1, r_offsetX = 0.5, r_offsetY = 0.5, r_opacity = 0.5, r_decay = 0.5\<rparr>))"
  let ?s = "step MouseLeave ?w"
  let ?es = "[Frame \<lparr>r_chance = 0.1, r_offsetX = 0.5, r_offsetY = 0.5, r_opacity = 0.5, r_decay = 0.5\<rparr>, MouseMove (Some \<lparr>rect_left = 0, rect_top = 0, offsetWidth = 800, offsetHeight = 200\<rparr>) 140 60, Frame \<lparr>r_chance = 0.1, r_offsetX = 0.5, r_offsetY = 0.5, r_opacity = 0.5, r_decay = 0.5\<rparr>, Resize (Some \<lparr>rect_left = 0, rect_top = 0, offsetWidth = 800, offsetHeight = 200\<rparr>)]"
  note t = no_spawn_while_not_hovering [of ?s ?d 300 150 None ?d "replicate 10 ?d" ?w ?es]
  have w: "squares ?w = [\<lparr>sq_x = 80, sq_y = 80, opacity = 0.45, life = 0.975, decay = 0.025\<rparr>]" "mousePos ?w = (100, 100)"
    by (simp_all add: render_eq squares_spawn spawn_eq accepts_def new_square_def handleMouseMove_def
        handleMouseEnter_def mount_eq resizeCanvas_def initial_def gridSize_def age_def dist_less_iff)
  have h: "\<not> isHovering ?s" by (simp add: handleMouseLeave_def)
  have q: "squares ?s = [\<lparr>sq_x = 80, sq_y = 80, opacity = 0.45, life = 0.975, decay = 0.025\<rparr>]" using w by simp
  have e: "MouseEnter \<notin> set ?es" by simp
  have a: "spawn ?d ?s = ?s" using t h by blast
  have "squares (fst (render ?d ?s)) = survivors (squares ?s)" using t h by blast
  then have b: "squares (fst (render ?d ?s)) = [\<lparr>sq_x = 80, sq_y = 80, opacity = 0.45, life = 0.95, decay = 0.025\<rparr>]"
    by (simp only: q) (simp add: age_def)
  have c: "squares (run (map Frame (replicate 10 ?d)) (mount 300 150 None ?d)) = []"
    using t by blast
  have f: "spawn_count ?es (handleMouseLeave ?w) = 0" using t e by blast
  show ?thesis by (intro conjI h q a b c e f)
qed

lemma run_single:
  "\<not> isHovering s \<Longrightarrow> squares s = [p] \<Longrightarrow> 0 < decay p \<Longrightarrow> 0 < life p \<Longrightarrow>
   squares (run (map Frame ds) s) =
     (if 0 < life p - real (length ds) * decay p
      then [p\<lparr>life := life p - real (length ds) * decay p\<rparr>] else [])"
proof (induction ds arbitrary: s p)
  case Nil
  then show ?case by simp
next
  case (Cons d ds)
  let ?s = "step (Frame d) s"
  have h: "\<not> isHovering ?s" using Cons.prems(1) by simp
  have sq: "squares ?s = (if 0 < life p - decay p then [age p] else [])"
    using Cons.prems(1,2) by (simp add: render_idle)
  show ?case
  proof (cases "0 < life p - decay p")
    case True
    then have s1: "squares ?s = [age p]" using sq by simp
    have dp: "0 < decay (age p)" "0 < life (age p)"
      using True Cons.prems(3) by (simp_all add: age_def)
    show ?thesis
      using Cons.IH [OF h s1 dp]
      by (simp add: age_def algebra_simps)
  next
    case False
    then have s1: "squares ?s = []" using sq by simp
    have "0 \<le> real (length ds) * decay p" using Cons.prems(3) by simp
    then have "\<not> 0 < life p - real (length (d # ds)) * decay p"
      using False by (simp add: algebra_simps)
    then show ?thesis
      using idle_frames_empty [OF h s1] by simp
  qed
qed

lemma last_painted_frames:
  "ds \<noteq> [] \<Longrightarrow>
   last (painted (map Frame ds) s) = map paint (rev (squares (run (map Frame ds) s)))"
proof (induction ds arbitrary: s)
  case Nil
  then show ?case by simp
next
  case (Cons d ds)
  show ?case
  proof (cases "ds = []")
    case True
    then show ?thesis by (simp add: render_eq)
  next
    case False
    then have "painted (map Frame ds) (step (Frame d) s) \<noteq> []"
      by (cases ds) simp_all
    then show ?thesis using Cons.IH [OF False] by simp
  qed
qed

text \<open>
  C5. A collection of one square with life \<open>1.0\<close>, decay \<open>0.05\<close> and opacity \<open>0.6\<close>,
  the flag false. After 19 frames the square is still there, its life is \<open>0.05\<close>, and
  the 19th frame paints it with alpha \<open>0.03 = 0.6 * 0.05\<close>. After 20 frames its life
  has reached \<open>0\<close>: the collection is empty and the 20th frame paints nothing.
\<close>

theorem scenario_countdown:
  assumes "\<not> isHovering s" and "squares s = [p]"
    and "life p = 1.0" and "decay p = 0.05" and "opacity p = 0.6"
  shows "(length ds = 19 \<longrightarrow>
            squares (run (map Frame ds) s) = [p\<lparr>life := 0.05\<rparr>] \<and>
            last (painted (map Frame ds) s) = [paint (p\<lparr>life := 0.05\<rparr>)] \<and>
            fill_alpha (paint (p\<lparr>life := 0.05\<rparr>)) = 0.03) \<and>
         (length ds = 20 \<longrightarrow>
            squares (run (map Frame ds) s) = [] \<and> last (painted (map Frame ds) s) = [])"
proof -
  have dp: "0 < decay p" "0 < life p" using assms(3,4) by simp_all
  note rs = run_single [OF assms(1,2) dp, of ds]
  have a: "length ds = 19 \<Longrightarrow> squares (run (map Frame ds) s) = [p\<lparr>life := 0.05\<rparr>]"
    using rs assms(3,4) by simp
  have b: "length ds = 20 \<Longrightarrow> squares (run (map Frame ds) s) = []"
    using rs assms(3,4) by simp
  have c: "fill_alpha (paint (p\<lparr>life := 0.05\<rparr>)) = 0.03"
    using assms(5) by (simp add: paint_def)
  have ne: "length ds = 19 \<or> length ds = 20 \<Longrightarrow> ds \<noteq> []" by auto
  show ?thesis
    using a b c last_painted_frames [of ds s] ne by auto
qed

theorem scenario_countdown_witness:
  "\<not> isHovering ((initial 300 150)\<lparr>squares := [\<lparr>sq_x = 0, sq_y = 0, opacity = 0.6, life = 1, decay = 0.05\<rparr>]\<rparr>) \<and>
   squares (run (map Frame (replicate 19 \<lparr>r_chance = 0.1, r_offsetX = 0.5, r_offsetY = 0.5, r_opacity = 0.5, r_decay = 0.5\<rparr>)) ((initial 300 150)\<lparr>squares := [\<lparr>sq_x = 0, sq_y = 0, opacity = 0.6, life = 1, decay = 0.05\<rparr>]\<rparr>)) = [\<lparr>sq_x = 0, sq_y = 0, opacity = 0.6, life = 0.05, decay = 0.05\<rparr>] \<and>
   last (painted (map Frame (replicate 19 \<lparr>r_chance = 0.1, r_offsetX = 0.5, r_offsetY = 0.5, r_opacity = 0.5, r_decay = 0.5\<rparr>)) ((initial 300 150)\<lparr>squares := [\<lparr>sq_x = 0, sq_y = 0, opacity = 0.6, life = 1, decay = 0.05\<rparr>]\<rparr>)) =
     [\<lparr>fill_alpha = 0.03, fill_x = 0, fill_y = 0, fill_w = 40, fill_h = 40\<rparr>] \<and>
   squares (run (map Frame (replicate 20 \<lparr>r_chance = 0.1, r_offsetX = 0.5, r_offsetY = 0.5, r_opacity = 0.5, r_decay = 0.5\<rparr>)) ((initial 300 150)\<lparr>squares := [\<lparr>sq_x = 0, sq_y = 0, opacity = 0.6, life = 1, decay = 0.05\<rparr>]\<rparr>)) = []"
proof -
  let ?d = "\<lparr>r_chance = 0.1, r_offsetX = 0.5, r_offsetY = 0.5, r_opacity = 0.5, r_decay = 0.5\<rparr>"
  let ?p = "\<lparr>sq_x = 0, sq_y = 0, opacity = 0.6, life = 1, decay = 0.05\<rparr>"
  let ?s = "((initial 300 150)\<lparr>squares := [\<lparr>sq_x = 0, sq_y = 0, opacity = 0.6, life = 1, decay = 0.05\<rparr>]\<rparr>)"
  have h: "\<not> isHovering ?s" by (simp add: initial_def)
  have q: "squares ?s = [?p]" by simp
  have l: "life ?p = 1.0" and dc: "decay ?p = 0.05" and o: "opacity ?p = 0.6" by simp_all
  have a: "squares (run (map Frame (replicate 19 ?d)) ?s) = [\<lparr>sq_x = 0, sq_y = 0, opacity = 0.6, life = 0.05, decay = 0.05\<rparr>]"
    using scenario_countdown [OF h q l dc o, of "replicate 19 ?d"] by simp
  have b: "last (painted (map Frame (replicate 19 ?d)) ?s) =
     [\<lparr>fill_alpha = 0.03, fill_x = 0, fill_y = 0, fill_w = 40, fill_h = 40\<rparr>]"
    using scenario_countdown [OF h q l dc o, of "replicate 19 ?d"]
    by (simp add: paint_def gridSize_def)
  have c: "squares (run (map Frame (replicate 20 ?d)) ?s) = []"
    using scenario_countdown [OF h q l dc o, of "replicate 20 ?d"] by simp
  show ?thesis by (intro conjI h a b c)
qed

text \<open>
  The same countdown with every result rounded to binary64, step by step. After 19
  steps the life is positive and within \<open>10 ^ -15\<close> of \<open>0.05\<close>, and the alpha within
  \<open>10 ^ -15\<close> of \<open>0.03\<close>; the 20th step gives \<open>-23 / 2 ^ 56\<close>, which the test
  \<^verbatim>\<open>sq.life <= 0\<close> removes as it removes the \<open>0\<close> of the exact computation.
\<close>

lemma binary64_literals:
  "binary64 0.05 = 3602879701896397 / 72057594037927936" "binary64 0.6 = 5404319552844595 / 9007199254740992"
  by (simp_all add: binary64_def rne_def eval_nat_numeral Let_def power_int_def)

lemma age64_steps:
  "age64 (square64 (1)) = square64 (4278419646001971 / 4503599627370496)"
  "age64 (square64 (4278419646001971 / 4503599627370496)) = square64 (2026619832316723 / 2251799813685248)"
  "age64 (square64 (2026619832316723 / 2251799813685248)) = square64 (3828059683264921 / 4503599627370496)"
  "age64 (square64 (3828059683264921 / 4503599627370496)) = square64 (900719925474099 / 1125899906842624)"
  "age64 (square64 (900719925474099 / 1125899906842624)) = square64 (3377699720527871 / 4503599627370496)"
  "age64 (square64 (3377699720527871 / 4503599627370496)) = square64 (1576259869579673 / 2251799813685248)"
  "age64 (square64 (1576259869579673 / 2251799813685248)) = square64 (2927339757790821 / 4503599627370496)"
  "age64 (square64 (2927339757790821 / 4503599627370496)) = square64 (337769972052787 / 562949953421312)"
  "age64 (square64 (337769972052787 / 562949953421312)) = square64 (2476979795053771 / 4503599627370496)"
  "age64 (square64 (2476979795053771 / 4503599627370496)) = square64 (9007199254740985 / 18014398509481984)"
  "age64 (square64 (9007199254740985 / 18014398509481984)) = square64 (4053239664633443 / 9007199254740992)"
  "age64 (square64 (4053239664633443 / 9007199254740992)) = square64 (7205759403792787 / 18014398509481984)"
  "age64 (square64 (7205759403792787 / 18014398509481984)) = square64 (197032483697459 / 562949953421312)"
  "age64 (square64 (197032483697459 / 562949953421312)) = square64 (5404319552844589 / 18014398509481984)"
  "age64 (square64 (5404319552844589 / 18014398509481984)) = square64 (2251799813685245 / 9007199254740992)"
  "age64 (square64 (2251799813685245 / 9007199254740992)) = square64 (3602879701896391 / 18014398509481984)"
  "age64 (square64 (3602879701896391 / 18014398509481984)) = square64 (675539944105573 / 4503599627370496)"
  "age64 (square64 (675539944105573 / 4503599627370496)) = square64 (7205759403792771 / 72057594037927936)"
  "age64 (square64 (7205759403792771 / 72057594037927936)) = square64 (1801439850948187 / 36028797018963968)"
  "age64 (square64 (1801439850948187 / 36028797018963968)) = square64 (- (23 / 72057594037927936))"
  by (simp_all add: age64_def square64_def binary64_def rne_def eval_nat_numeral Let_def power_int_def)

lemma countdown_binary64:
  "(age64 ^^ 19) (square64 1) = square64 (1801439850948187 / 36028797018963968) \<and>
   (age64 ^^ 20) (square64 1) = square64 (- (23 / 72057594037927936)) \<and>
   0 < life (square64 (1801439850948187 / 36028797018963968)) \<and>
   \<bar>life (square64 (1801439850948187 / 36028797018963968)) - 0.05\<bar> < 1 / 10 ^ 15 \<and>
   fill_alpha (paint64 (square64 (1801439850948187 / 36028797018963968))) = 8646911284551297 / 288230376151711744 \<and>
   \<bar>fill_alpha (paint64 (square64 (1801439850948187 / 36028797018963968))) - 0.03\<bar> < 1 / 10 ^ 15 \<and>
   life (square64 (- (23 / 72057594037927936))) \<le> 0"
proof -
  have a: "(age64 ^^ 19) (square64 1) = square64 (1801439850948187 / 36028797018963968)"
    by (simp add: eval_nat_numeral age64_steps)
  have b: "(age64 ^^ 20) (square64 1) = square64 (- (23 / 72057594037927936))"
    by (simp add: eval_nat_numeral age64_steps)
  have c: "0 < life (square64 (1801439850948187 / 36028797018963968))"
    "\<bar>life (square64 (1801439850948187 / 36028797018963968)) - 0.05\<bar> < 1 / 10 ^ 15"
    "life (square64 (- (23 / 72057594037927936))) \<le> 0"
    by (simp_all add: square64_def)
  have p: "fill_alpha (paint64 (square64 (1801439850948187 / 36028797018963968))) = 8646911284551297 / 288230376151711744"
    by (simp add: paint64_def square64_def binary64_def rne_def eval_nat_numeral Let_def power_int_def)
  have q: "\<bar>fill_alpha (paint64 (square64 (1801439850948187 / 36028797018963968))) - 0.03\<bar> < 1 / 10 ^ 15"
    by (simp only: p) simp
  show ?thesis by (intro conjI a b c p q)
qed

lemma age_fields [simp]:
  "opacity (age q) = opacity q" "decay (age q) = decay q" "sq_x (age q) = sq_x q"
  "sq_y (age q) = sq_y q" "life (age q) = life q - decay q"
  by (simp_all add: age_def)




lemma resizeCanvas_frame:
  "resizeCanvas c s =
     s\<lparr>canvas_width := canvas_width (resizeCanvas c s),
       canvas_height := canvas_height (resizeCanvas c s)\<rparr>"
  by (simp add: resizeCanvas_def split: option.splits)

lemma run_resize_frame:
  "run (map Resize cs) s =
     s\<lparr>canvas_width := canvas_width (run (map Resize cs) s),
       canvas_height := canvas_height (run (map Resize cs) s)\<rparr>"
proof (induction cs arbitrary: s)
  case Nil
  then show ?case by simp
next
  case (Cons c cs)
  have "run (map Resize (c # cs)) s = run (map Resize cs) (resizeCanvas c s)" by simp
  also have "\<dots> = (resizeCanvas c s)\<lparr>canvas_width := canvas_width (run (map Resize cs) (resizeCanvas c s)),
       canvas_height := canvas_height (run (map Resize cs) (resizeCanvas c s))\<rparr>"
    by (rule Cons.IH)
  also have "\<dots> = s\<lparr>canvas_width := canvas_width (run (map Resize cs) (resizeCanvas c s)),
       canvas_height := canvas_height (run (map Resize cs) (resizeCanvas c s))\<rparr>"
    by (subst resizeCanvas_frame) simp
  finally show ?case by simp
qed

text \<open>
  C7. \<^verbatim>\<open>resizeCanvas\<close> writes the width and the height of the canvas, from the layout
  box of the container when there is one, and nothing else: after any number of resize
  events the squares (their number, their attributes and their coordinates), the pointer
  and the hovering flag are what they were, and the canvas has the size of the last
  container read. Resizing twice against the same container is resizing once.
\<close>

theorem resize_keeps_squares:
  "resizeCanvas (Some c) s = s\<lparr>canvas_width := offsetWidth c, canvas_height := offsetHeight c\<rparr> \<and>
   resizeCanvas None s = s \<and>
   resizeCanvas k (resizeCanvas k s) = resizeCanvas k s \<and>
   squares (run (map Resize cs) s) = squares s \<and>
   mousePos (run (map Resize cs) s) = mousePos s \<and>
   isHovering (run (map Resize cs) s) = isHovering s \<and>
   position (run (map Resize cs) s) = position s \<and>
   glow_opacity (run (map Resize cs) s) = glow_opacity s \<and>
   run (map Resize (cs @ [Some c])) s =
     s\<lparr>canvas_width := offsetWidth c, canvas_height := offsetHeight c\<rparr>"
proof -
  have a: "resizeCanvas (Some c) s = s\<lparr>canvas_width := offsetWidth c, canvas_height := offsetHeight c\<rparr>"
    "resizeCanvas None s = s" "resizeCanvas k (resizeCanvas k s) = resizeCanvas k s"
    by (simp_all add: resizeCanvas_def split: option.splits)
  note f = run_resize_frame [of cs s]
  have b: "squares (run (map Resize cs) s) = squares s"
    "mousePos (run (map Resize cs) s) = mousePos s"
    "isHovering (run (map Resize cs) s) = isHovering s"
    "position (run (map Resize cs) s) = position s"
    "glow_opacity (run (map Resize cs) s) = glow_opacity s"
    by (subst f, simp)+
  have ra: "\<And>es fs t. run (es @ fs) t = run fs (run es t)"
  proof -
    fix es fs t show "run (es @ fs) t = run fs (run es t)"
      by (induction es arbitrary: t) simp_all
  qed
  have c: "run (map Resize (cs @ [Some c])) s =
     s\<lparr>canvas_width := offsetWidth c, canvas_height := offsetHeight c\<rparr>"
    by (simp add: ra resizeCanvas_def) (subst f, simp)
  show ?thesis by (intro conjI a b c)
qed

theorem resize_keeps_squares_witness:
  "squares (run [MouseEnter, MouseMove (Some \<lparr>rect_left = 0, rect_top = 0, offsetWidth = 800, offsetHeight = 200\<rparr>) 100 100, Frame \<lparr>r_chance = 0.1, r_offsetX = 0.5, r_offsetY = 0.5, r_opacity = 0.5, r_decay = 0.5\<rparr>]
      (mount 300 150 None \<lparr>r_chance = 0.1, r_offsetX = 0.5, r_offsetY = 0.5, r_opacity = 0.5, r_decay = 0.5\<rparr>)) = [\<lparr>sq_x = 80, sq_y = 80, opacity = 0.45, life = 0.975, decay = 0.025\<rparr>] \<and>
   squares (run (map Resize [Some \<lparr>rect_left = 0, rect_top = 0, offsetWidth = 1024, offsetHeight = 300\<rparr>, None, Some \<lparr>rect_left = 0, rect_top = 0, offsetWidth = 1024, offsetHeight = 300\<rparr>]) (run [MouseEnter, MouseMove (Some \<lparr>rect_left = 0, rect_top = 0, offsetWidth = 800, offsetHeight = 200\<rparr>) 100 100, Frame \<lparr>r_chance = 0.1, r_offsetX = 0.5, r_offsetY = 0.5, r_opacity = 0.5, r_decay = 0.5\<rparr>]
      (mount 300 150 None \<lparr>r_chance = 0.1, r_offsetX = 0.5, r_offsetY = 0.5, r_opacity = 0.5, r_decay = 0.5\<rparr>))) = [\<lparr>sq_x = 80, sq_y = 80, opacity = 0.45, life = 0.975, decay = 0.025\<rparr>] \<and>
   canvas_width (run (map Resize ([Some \<lparr>rect_left = 0, rect_top = 0, offsetWidth = 1024, offsetHeight = 300\<rparr>, None] @ [Some \<lparr>rect_left = 0, rect_top = 0, offsetWidth = 1024, offsetHeight = 300\<rparr>])) (run [MouseEnter, MouseMove (Some \<lparr>rect_left = 0, rect_top = 0, offsetWidth = 800, offsetHeight = 200\<rparr>) 100 100, Frame \<lparr>r_chance = 0.1, r_offsetX = 0.5, r_offsetY = 0.5, r_opacity = 0.5, r_decay = 0.5\<rparr>]
      (mount 300 150 None \<lparr>r_chance = 0.1, r_offsetX = 0.5, r_offsetY = 0.5, r_opacity = 0.5, r_decay = 0.5\<rparr>))) = 1024 \<and>
   canvas_height (run (map Resize ([Some \<lparr>rect_left = 0, rect_top = 0, offsetWidth = 1024, offsetHeight = 300\<rparr>, None] @ [Some \<lparr>rect_left = 0, rect_top = 0, offsetWidth = 1024, offsetHeight = 300\<rparr>])) (run [MouseEnter, MouseMove (Some \<lparr>rect_left = 0, rect_top = 0, offsetWidth = 800, offsetHeight = 200\<rparr>) 100 100, Frame \<lparr>r_chance = 0.1, r_offsetX = 0.5, r_offsetY = 0.5, r_opacity = 0.5, r_decay = 0.5\<rparr>]
      (mount 300 150 None \<lparr>r_chance = 0.1, r_offsetX = 0.5, r_offsetY = 0.5, r_opacity = 0.5, r_decay = 0.5\<rparr>))) = 300"
proof -
  let ?w = "(run [MouseEnter, MouseMove (Some \<lparr>rect_left = 0, rect_top = 0, offsetWidth = 800, offsetHeight = 200\<rparr>) 100 100, Frame \<lparr>r_chance = 0.1, r_offsetX = 0.5, r_offsetY = 0.5, r_opacity = 0.5, r_decay = 0.5\<rparr>]
      (mount 300 150 None \<lparr>r_chance = 0.1, r_offsetX = 0.5, r_offsetY = 0.5, r_opacity = 0.5, r_decay = 0.5\<rparr>))"
  let ?b = "\<lparr>rect_left = 0, rect_top = 0, offsetWidth = 1024, offsetHeight = 300\<rparr>"
  note t = resize_keeps_squares [of ?b ?w None "[Some ?b, None]"]
  note u = resize_keeps_squares [of ?b ?w None "[Some ?b, None, Some ?b]"]
  have w: "squares ?w = [\<lparr>sq_x = 80, sq_y = 80, opacity = 0.45, life = 0.975, decay = 0.025\<rparr>]"
    by (simp add: render_eq squares_spawn spawn_eq accepts_def new_square_def handleMouseMove_def
        handleMouseEnter_def mount_eq resizeCanvas_def initial_def gridSize_def age_def dist_less_iff)
  have "squares (run (map Resize [Some ?b, None, Some ?b]) ?w) = squares ?w"
    using u by blast
  then have a: "squares (run (map Resize [Some ?b, None, Some ?b]) ?w) = [\<lparr>sq_x = 80, sq_y = 80, opacity = 0.45, life = 0.975, decay = 0.025\<rparr>]"
    by (simp only: w)
  have "run (map Resize ([Some ?b, None] @ [Some ?b])) ?w =
      ?w\<lparr>canvas_width := offsetWidth ?b, canvas_height := offsetHeight ?b\<rparr>"
    using t by blast
  then have b: "canvas_width (run (map Resize ([Some ?b, None] @ [Some ?b])) ?w) = 1024"
    "canvas_height (run (map Resize ([Some ?b, None] @ [Some ?b])) ?w) = 300"
    by simp_all
  show ?thesis by (intro conjI w a b)
qed

lemma update_loop2_eq: "update_loop2 i sqs out = update_loop i sqs out"
  by (induction i arbitrary: sqs out) (simp_all add: Let_def age_def splice1_def paint_def)

lemma spawn2_eq: "spawn2 d s = spawn d s"
  by (simp add: spawn2_def spawn_def)

lemma render2_eq: "render2 d s = render d s"
  by (simp add: render2_def render_def spawn2_eq update_loop2_eq)

lemma resizeCanvas2_eq: "resizeCanvas2 c s = resizeCanvas c s"
  by (simp add: resizeCanvas2_def resizeCanvas_def)

lemma step2_eq: "step2 e s = step e s"
  by (cases e)
    (simp_all add: handleMouseMove2_def handleMouseMove_def handleMouseEnter2_def
      handleMouseEnter_def handleMouseLeave2_def handleMouseLeave_def resizeCanvas2_def
      resizeCanvas_def render2_eq)

text \<open>
  C8. The handlers and the frame of the second variant compute what those of the first
  compute: on the same events and the same draws the two variants reach the same state
  and paint the same rectangles.
\<close>

theorem variants_agree:
  "handleMouseMove2 c cx cy s = handleMouseMove c cx cy s \<and>
   handleMouseEnter2 s = handleMouseEnter s \<and>
   handleMouseLeave2 s = handleMouseLeave s \<and>
   resizeCanvas2 c s = resizeCanvas c s \<and>
   render2 d s = render d s \<and>
   mount2 w h c d = mount w h c d \<and>
   run2 es s = run es s \<and>
   painted2 es s = painted es s"
proof -
  have a: "handleMouseMove2 c cx cy s = handleMouseMove c cx cy s"
    "handleMouseEnter2 s = handleMouseEnter s" "handleMouseLeave2 s = handleMouseLeave s"
    "resizeCanvas2 c s = resizeCanvas c s"
    by (simp_all add: handleMouseMove2_def handleMouseMove_def handleMouseEnter2_def
      handleMouseEnter_def handleMouseLeave2_def handleMouseLeave_def resizeCanvas2_def
      resizeCanvas_def)
  have m: "mount2 w h c d = mount w h c d"
    by (simp add: mount2_def mount_def render2_eq resizeCanvas2_eq initial2_def initial_def)
  have r: "run2 es s = run es s"
    by (induction es arbitrary: s) (simp_all add: step2_eq)
  have p: "painted2 es s = painted es s"
  proof (induction es arbitrary: s)
    case Nil
    then show ?case by simp
  next
    case (Cons e es)
    then show ?case by (cases e) (simp_all add: step2_eq render2_eq del: step.simps step2.simps)
  qed
  show ?thesis by (intro conjI a render2_eq m r p)
qed

theorem variants_agree_witness:
  "run2 [MouseEnter, MouseMove (Some \<lparr>rect_left = 0, rect_top = 0, offsetWidth = 800, offsetHeight = 200\<rparr>) 100 100, Frame \<lparr>r_chance = 0.1, r_offsetX = 0.5, r_offsetY = 0.5, r_opacity = 0.5, r_decay = 0.5\<rparr>] (mount2 300 150 None \<lparr>r_chance = 0.1, r_offsetX = 0.5, r_offsetY = 0.5, r_opacity = 0.5, r_decay = 0.5\<rparr>) =
     run [MouseEnter, MouseMove (Some \<lparr>rect_left = 0, rect_top = 0, offsetWidth = 800, offsetHeight = 200\<rparr>) 100 100, Frame \<lparr>r_chance = 0.1, r_offsetX = 0.5, r_offsetY = 0.5, r_opacity = 0.5, r_decay = 0.5\<rparr>] (mount 300 150 None \<lparr>r_chance = 0.1, r_offsetX = 0.5, r_offsetY = 0.5, r_opacity = 0.5, r_decay = 0.5\<rparr>) \<and>
   squares (run2 [MouseEnter, MouseMove (Some \<lparr>rect_left = 0, rect_top = 0, offsetWidth = 800, offsetHeight = 200\<rparr>) 100 100, Frame \<lparr>r_chance = 0.1, r_offsetX = 0.5, r_offsetY = 0.5, r_opacity = 0.5, r_decay = 0.5\<rparr>] (mount2 300 150 None \<lparr>r_chance = 0.1, r_offsetX = 0.5, r_offsetY = 0.5, r_opacity = 0.5, r_decay = 0.5\<rparr>)) = [\<lparr>sq_x = 80, sq_y = 80, opacity = 0.45, life = 0.975, decay = 0.025\<rparr>] \<and>
   painted2 [MouseEnter, MouseMove (Some \<lparr>rect_left = 0, rect_top = 0, offsetWidth = 800, offsetHeight = 200\<rparr>) 100 100, Frame \<lparr>r_chance = 0.1, r_offsetX = 0.5, r_offsetY = 0.5, r_opacity = 0.5, r_decay = 0.5\<rparr>] (mount2 300 150 None \<lparr>r_chance = 0.1, r_offsetX = 0.5, r_offsetY = 0.5, r_opacity = 0.5, r_decay = 0.5\<rparr>) =
     [[\<lparr>fill_alpha = 0.43875, fill_x = 80, fill_y = 80, fill_w = 40, fill_h = 40\<rparr>]]"
proof -
  let ?d = "\<lparr>r_chance = 0.1, r_offsetX = 0.5, r_offsetY = 0.5, r_opacity = 0.5, r_decay = 0.5\<rparr>"
  let ?es = "[MouseEnter, MouseMove (Some \<lparr>rect_left = 0, rect_top = 0, offsetWidth = 800, offsetHeight = 200\<rparr>) 100 100, Frame \<lparr>r_chance = 0.1, r_offsetX = 0.5, r_offsetY = 0.5, r_opacity = 0.5, r_decay = 0.5\<rparr>]"
  note t = variants_agree [of None 0 0 "mount 300 150 None ?d" ?d 300 150 ?es]
  have m: "mount2 300 150 None ?d = mount 300 150 None ?d" using t by blast
  have r: "run2 ?es (mount 300 150 None ?d) = run ?es (mount 300 150 None ?d)" using t by blast
  have p: "painted2 ?es (mount 300 150 None ?d) = painted ?es (mount 300 150 None ?d)"
    using t by blast
  have a: "run2 ?es (mount2 300 150 None ?d) = run ?es (mount 300 150 None ?d)"
    by (simp only: m r)
  have w: "squares (run ?es (mount 300 150 None ?d)) = [\<lparr>sq_x = 80, sq_y = 80, opacity = 0.45, life = 0.975, decay = 0.025\<rparr>]"
    by (simp add: render_eq squares_spawn spawn_eq accepts_def new_square_def handleMouseMove_def
        handleMouseEnter_def mount_eq resizeCanvas_def initial_def gridSize_def age_def dist_less_iff)
  have b: "squares (run2 ?es (mount2 300 150 None ?d)) = [\<lparr>sq_x = 80, sq_y = 80, opacity = 0.45, life = 0.975, decay = 0.025\<rparr>]"
    by (simp only: a w)
  have "painted ?es (mount 300 150 None ?d) =
     [[\<lparr>fill_alpha = 0.43875, fill_x = 80, fill_y = 80, fill_w = 40, fill_h = 40\<rparr>]]"
    by (simp add: paint_def render_eq squares_spawn spawn_eq accepts_def new_square_def handleMouseMove_def
        handleMouseEnter_def mount_eq resizeCanvas_def initial_def gridSize_def age_def dist_less_iff)
  then have c: "painted2 ?es (mount2 300 150 None ?d) =
     [[\<lparr>fill_alpha = 0.43875, fill_x = 80, fill_y = 80, fill_w = 40, fill_h = 40\<rparr>]]"
    by (simp only: m p)
  show ?thesis by (intro conjI a b c)
qed

text \<open>
  C9. \<^verbatim>\<open>ServiceIcon\<close> returns the icon of that name at the size given for each of
  \<^verbatim>\<open>'Claude'\<close>, \<^verbatim>\<open>'OpenAI'\<close> and \<^verbatim>\<open>'Gemini'\<close>, and \<^verbatim>\<open>null\<close> for every other
  name, and for no other: it has a value on every name and raises on none.
\<close>

theorem ServiceIcon_lookup:
  "ServiceIcon ''Claude'' sz = Some (Claude sz) \<and>
   ServiceIcon ''OpenAI'' sz = Some (OpenAI sz) \<and>
   ServiceIcon ''Gemini'' sz = Some (Gemini sz) \<and>
   (name \<notin> {''Claude'', ''OpenAI'', ''Gemini''} \<longrightarrow> ServiceIcon name sz = None) \<and>
   (ServiceIcon name sz = None \<longrightarrow> name \<notin> {''Claude'', ''OpenAI'', ''Gemini''})"
  by (simp add: ServiceIcon_def)

theorem ServiceIcon_lookup_witness:
  "ServiceIcon ''Claude'' (64::nat) = Some (Claude 64) \<and>
   ServiceIcon ''OpenAI'' (80::nat) = Some (OpenAI 80) \<and>
   ServiceIcon ''Gemini'' (64::nat) = Some (Gemini 64) \<and>
   ''claude'' \<notin> {''Claude'', ''OpenAI'', ''Gemini''} \<and>
   ServiceIcon ''claude'' (64::nat) = None \<and>
   ServiceIcon [] (64::nat) = None"
proof -
  have n: "''claude'' \<notin> {''Claude'', ''OpenAI'', ''Gemini''}"
    "[] \<notin> {''Claude'', ''OpenAI'', ''Gemini''}" by simp_all
  have a: "ServiceIcon ''Claude'' (64::nat) = Some (Claude 64)"
    using ServiceIcon_lookup [of 64 "''claude''"] by blast
  have b: "ServiceIcon ''OpenAI'' (80::nat) = Some (OpenAI 80)"
    using ServiceIcon_lookup [of 80 "''claude''"] by blast
  have c: "ServiceIcon ''Gemini'' (64::nat) = Some (Gemini 64)"
    using ServiceIcon_lookup [of 64 "''claude''"] by blast
  have d: "ServiceIcon ''claude'' (64::nat) = None"
    using ServiceIcon_lookup [of 64 "''claude''"] n(1) by blast
  have e: "ServiceIcon [] (64::nat) = None"
    using ServiceIcon_lookup [of 64 "[]"] n(2) by blast
  show ?thesis by (intro conjI a b c n(1) d e)
qed




end
